theory Spec2Isabelle
  imports Main "HOL-Library.Sublist"
begin

section \<open>Function prologue emission (lib/SILGen/SILGenProlog.cpp)\<close>

text \<open>
  A shallow embedding of the prologue emitter: the entry-block argument visitor
  \<open>EmitBBArguments\<close>, the helper \<open>ArgumentInitHelper\<close>, the capture binder and the two
  \<open>emitProlog\<close> overloads. The generator state \<open>SILGenFunction\<close> is passed explicitly;
  every function that can hit an assertion or \<open>llvm_unreachable\<close> returns a sum whose
  left injection is the failure. Source locations only decorate instructions and are
  kept only where the code reads a declaration out of them.
\<close>

subsection \<open>AST types, lowered types, declarations\<close>

datatype Representation = Swift | Block | Thin | CFunctionPointer

datatype Type =
    TupleType "Type list"
  | FunctionType Representation
  | OptionalType Type
  | InOutType Type
  | MetatypeType Type
  | DynamicSelfType Type
  | BuiltinUnsafeValueBufferType
  | NominalType string

datatype SILType = SILType (getSwiftRValueType: Type) (isAddress: bool)

definition getAddressType :: "SILType \<Rightarrow> SILType" where
  "getAddressType ty = SILType (getSwiftRValueType ty) True"

definition getPrimitiveObjectType :: "Type \<Rightarrow> SILType" where
  "getPrimitiveObjectType t = SILType t False"

definition getExceptionType :: SILType where
  "getExceptionType = SILType (NominalType ''Error'') False"

text \<open>A \<open>VarDecl\<close> / \<open>ParamDecl\<close>, with the queries the prologue makes of it. A
  parameter without a name has the empty \<open>declName\<close>; a declaration whose type is
  not set (the null \<open>Type()\<close>) has \<open>declType = None\<close>. Types are canonical types: the
  sugar that \<open>getCanonicalType\<close> and \<open>getAs\<close> look through is not represented.\<close>

record VarDecl =
  declName :: string
  declType :: "Type option"
  interfaceType :: Type
  isLet :: bool
  isInOut :: bool
  isShared :: bool
  isSettable :: bool

definition hasName :: "VarDecl \<Rightarrow> bool" where
  "hasName vd = (declName vd \<noteq> [])"

fun getInOutObjectType :: "Type \<Rightarrow> Type" where
  "getInOutObjectType (InOutType t) = t"
| "getInOutObjectType t = t"

fun getAnyOptionalObjectType :: "Type \<Rightarrow> Type option" where
  "getAnyOptionalObjectType (OptionalType t) = Some t"
| "getAnyOptionalObjectType t = None"

fun isBlockFunctionType :: "Type \<Rightarrow> bool" where
  "isBlockFunctionType (FunctionType r) = (r = Block)"
| "isBlockFunctionType t = False"

datatype ParameterConvention =
    Indirect_In
  | Indirect_In_Constant
  | Indirect_In_Guaranteed
  | Indirect_Inout
  | Indirect_InoutAliasable
  | Direct_Owned
  | Direct_Unowned
  | Direct_Guaranteed

text \<open>A \<open>SILParameterInfo\<close>; \<open>infoType\<close> is its SIL type mapped into the function's
  context, the right-hand side of the assertion in \<open>visitType\<close>.\<close>

record SILParameterInfo =
  getConvention :: ParameterConvention
  infoType :: SILType

datatype CaptureKind = CKNone | CKConstant | CKBox | CKStorageAddress

record CapturedValue =
  getDecl :: VarDecl
  isDynamicSelfMetadata :: bool

text \<open>
  What the prologue asks of its collaborators (type lowering, the module's options and
  conventions, the AST): these are not part of the file and are parameters of the model.
  \<open>getCanonicalType\<close> is the canonicalization with respect to the generic signature of
  the declaration context, \<open>loweredParameters\<close> the parameters of the function's lowered
  type.
\<close>

record Env =
  getLoweredType :: "Type \<Rightarrow> SILType"
  isLoadable :: "Type \<Rightarrow> bool"
  isTrivial :: "Type \<Rightarrow> bool"
  isMaterializable :: "Type \<Rightarrow> bool"
  isReturnedIndirectlyInSIL :: "SILType \<Rightarrow> bool"
  useLoweredAddresses :: bool
  EnableGuaranteedClosureContexts :: bool
  eraseDynamicSelfType :: "Type \<Rightarrow> Type"
  getCanonicalType :: "Type \<Rightarrow> Type"
  F_mapTypeIntoContext :: "Type \<Rightarrow> Type"
  DC_mapTypeIntoContext :: "Type \<Rightarrow> Type"
  closure_mapTypeIntoContext :: "Type \<Rightarrow> Type"
  loweredParameters :: "SILParameterInfo list"
  getDeclCaptureKind :: "CapturedValue \<Rightarrow> CaptureKind"
  getContextBoxTypeForCapture :: "VarDecl \<Rightarrow> Type \<Rightarrow> Type"

subsection \<open>SIL values, emitted code, cleanups\<close>

text \<open>A value is named by what defines it: an entry-block argument (with its index in
  the block) or an instruction with its operands. An \<open>alloc_stack\<close> carries the number
  of events emitted before it, which tells two allocations apart.\<close>

datatype SILValue =
    FunctionArgument nat SILType "VarDecl option"
  | CopyValueInst SILValue
  | CopyBlockInst SILValue
  | TupleInst SILType "SILValue list"
  | AllocStackInst nat SILType
  | TupleElementAddrInst SILValue nat SILType
  | ProjectBoxInst SILValue nat
  | UncheckedBitCastInst SILValue SILType
  | SILUndef SILType

text \<open>The SIL type of a value. The projection out of a box is given the address type
  built on the box's type; the prologue never reads it.\<close>

fun getType :: "SILValue \<Rightarrow> SILType" where
  "getType (FunctionArgument i ty d) = ty"
| "getType (CopyValueInst v) = getType v"
| "getType (CopyBlockInst v) = getType v"
| "getType (TupleInst ty vs) = ty"
| "getType (AllocStackInst n ty) = getAddressType ty"
| "getType (TupleElementAddrInst b i ty) = ty"
| "getType (ProjectBoxInst b i) = getAddressType (getType b)"
| "getType (UncheckedBitCastInst v ty) = ty"
| "getType (SILUndef ty) = ty"

text \<open>Everything the emitter appends, in the order it appends it: entry-block
  arguments and instructions. A debug-value marker carries (constant, ordinal) and,
  for the error slot, a name.\<close>

datatype Event =
    CreateFunctionArgument SILValue
  | Emit SILValue
  | RetainValue SILValue
  | Store SILValue SILValue
  | CopyAddr SILValue SILValue
  | DestroyValue SILValue
  | DebugValue SILValue string bool nat
  | DebugValueAddr SILValue bool nat
  | SetArgNo SILValue nat

text \<open>The cleanups this file registers: its own \<open>StrongReleaseCleanup\<close> and the one
  of \<open>enterDestroyCleanup\<close>. (\<open>CleanupWriteBackToInOut\<close> is declared in the file and
  never instantiated.)\<close>

datatype CleanupKind =
    StrongReleaseCleanup SILValue
  | DestroyValueCleanup SILValue

datatype CleanupState = Active | Forwarded | Popped

type_synonym CleanupHandle = nat

datatype VarLoc = VarLoc (locValue: SILValue) (locBox: "SILValue option")

record SILGenFunction =
  emitted :: "Event list"
  Cleanups :: "(CleanupKind \<times> CleanupState) list"
  VarLocs :: "(VarDecl \<times> VarLoc) list"

text \<open>The ways the emitter aborts: \<open>llvm_unreachable("bad parameter convention")\<close>,
  \<open>front()\<close> of an empty parameter queue, and the assertions of the file.\<close>

datatype Error =
    BadParameterConvention
  | NoParameterInfo
  | ArgumentTypeMismatch
  | NoType
  | ExpectedInOutAddress
  | ExpectedImmutableParameter

text \<open>Modelled from the spec: \<open>ManagedValue\<close> is declared outside this file. Spec 3:
  a value plus an optional cleanup handle; an lvalue is an address that is not owned.\<close>

record ManagedValue =
  getValue :: SILValue
  isLValue :: bool
  cleanup :: "CleanupHandle option"

definition forUnmanaged :: "SILValue \<Rightarrow> ManagedValue" where
  "forUnmanaged v = \<lparr>getValue = v, isLValue = False, cleanup = None\<rparr>"

definition forLValue :: "SILValue \<Rightarrow> ManagedValue" where
  "forLValue v = \<lparr>getValue = v, isLValue = True, cleanup = None\<rparr>"

definition hasCleanup :: "ManagedValue \<Rightarrow> bool" where
  "hasCleanup mv = (cleanup mv \<noteq> None)"

text \<open>Modelled from the spec: the builder and the entry block are declared outside
  this file. Spec 6: the IR emission authority is append-only.\<close>

definition emit :: "Event \<Rightarrow> SILGenFunction \<Rightarrow> SILGenFunction" where
  "emit e s = s\<lparr>emitted := emitted s @ [e]\<rparr>"

fun isArgument :: "Event \<Rightarrow> bool" where
  "isArgument (CreateFunctionArgument v) = True"
| "isArgument e = False"

definition entryArguments :: "SILGenFunction \<Rightarrow> Event list" where
  "entryArguments s = filter isArgument (emitted s)"

text \<open>Modelled from the spec: \<open>F.begin()->createFunctionArgument(ty, decl)\<close> is
  declared outside this file. Spec 6: it appends one argument to the entry block.\<close>

definition createFunctionArgument ::
  "SILType \<Rightarrow> VarDecl option \<Rightarrow> SILGenFunction \<Rightarrow> SILValue \<times> SILGenFunction" where
  "createFunctionArgument ty d s =
     (let v = FunctionArgument (length (entryArguments s)) ty d
      in (v, emit (CreateFunctionArgument v) s))"

text \<open>Modelled from the spec: \<open>CleanupManager::pushCleanup\<close> is declared outside this
  file. Spec 3 and 4.3: registering appends an active cleanup above the current scope
  marker; its handle is its position.\<close>

definition pushCleanup :: "CleanupKind \<Rightarrow> SILGenFunction \<Rightarrow> CleanupHandle \<times> SILGenFunction" where
  "pushCleanup k s = (length (Cleanups s), s\<lparr>Cleanups := Cleanups s @ [(k, Active)]\<rparr>)"

text \<open>Modelled from the spec: \<open>enterDestroyCleanup\<close> is declared outside this file.
  Spec 3: it registers a deferred release of the value.\<close>

definition enterDestroyCleanup :: "SILValue \<Rightarrow> SILGenFunction \<Rightarrow> CleanupHandle \<times> SILGenFunction" where
  "enterDestroyCleanup v s = pushCleanup (DestroyValueCleanup v) s"

text \<open>Modelled from the spec: \<open>emitManagedRValueWithCleanup\<close> attaches a release cleanup
  to a value the callee already owns (4.1, Owned).\<close>

definition emitManagedRValueWithCleanup ::
  "SILValue \<Rightarrow> SILGenFunction \<Rightarrow> ManagedValue \<times> SILGenFunction" where
  "emitManagedRValueWithCleanup v s =
     (case enterDestroyCleanup v s of
        (h, s') \<Rightarrow> (\<lparr>getValue = v, isLValue = False, cleanup = Some h\<rparr>, s'))"

text \<open>Modelled from the spec: \<open>emitManagedRetain\<close> retains the value at once and attaches
  a release cleanup (4.1, Unowned).\<close>

definition emitManagedRetain ::
  "SILValue \<Rightarrow> SILGenFunction \<Rightarrow> ManagedValue \<times> SILGenFunction" where
  "emitManagedRetain v s = emitManagedRValueWithCleanup v (emit (RetainValue v) s)"

subsection \<open>\<open>EmitBBArguments::getManagedValue\<close>\<close>

definition getManagedValue ::
  "SILValue \<Rightarrow> Type \<Rightarrow> SILParameterInfo \<Rightarrow> SILGenFunction
     \<Rightarrow> Error + (ManagedValue \<times> SILGenFunction)" where
  "getManagedValue arg t parameterInfo s =
     (case getConvention parameterInfo of
        Direct_Guaranteed \<Rightarrow> Inr (forUnmanaged arg, s)
      | Indirect_In_Guaranteed \<Rightarrow> Inr (forUnmanaged arg, s)
      | Direct_Unowned \<Rightarrow> Inr (emitManagedRetain arg s)
      | Indirect_Inout \<Rightarrow> Inr (forLValue arg, s)
      | Indirect_InoutAliasable \<Rightarrow> Inr (forLValue arg, s)
      | Direct_Owned \<Rightarrow> Inr (emitManagedRValueWithCleanup arg s)
      | Indirect_In \<Rightarrow> Inr (emitManagedRValueWithCleanup arg s)
      | Indirect_In_Constant \<Rightarrow> Inl BadParameterConvention)"


subsection \<open>Managed-value operations used by the tuple visitor\<close>

text \<open>Modelled from the spec: the state of a cleanup is kept by the cleanup manager,
  declared outside this file. Spec 3: a cleanup is active until it is forwarded or
  popped.\<close>

definition setCleanupState :: "CleanupHandle \<Rightarrow> CleanupState \<Rightarrow> SILGenFunction \<Rightarrow> SILGenFunction" where
  "setCleanupState h st s =
     (if h < length (Cleanups s)
      then s\<lparr>Cleanups := (Cleanups s)[h := (fst (Cleanups s ! h), st)]\<rparr>
      else s)"

text \<open>Modelled from the spec: \<open>ManagedValue::forward\<close> is declared outside this file.
  Spec 3 (I2): forwarding gives the value up and clears its cleanup.\<close>

definition forward :: "ManagedValue \<Rightarrow> SILGenFunction \<Rightarrow> SILValue \<times> SILGenFunction" where
  "forward mv s =
     (case cleanup mv of
        None \<Rightarrow> (getValue mv, s)
      | Some h \<Rightarrow> (getValue mv, setCleanupState h Forwarded s))"

text \<open>Modelled from the spec: \<open>ManagedValue::copyUnmanaged\<close> is declared outside this
  file. Spec 4.2: a borrowed element is defensively copied; the copy is owned.\<close>

definition copyUnmanaged :: "ManagedValue \<Rightarrow> SILGenFunction \<Rightarrow> ManagedValue \<times> SILGenFunction" where
  "copyUnmanaged mv s =
     (let v = CopyValueInst (getValue mv)
      in emitManagedRValueWithCleanup v (emit (Emit v) s))"

text \<open>Modelled from the spec: \<open>ManagedValue::forwardInto\<close> is declared outside this
  file. Spec 4.2: the element is forwarded and written into the buffer.\<close>

definition forwardInto :: "ManagedValue \<Rightarrow> SILValue \<Rightarrow> SILGenFunction \<Rightarrow> SILGenFunction" where
  "forwardInto mv addr s = (case forward mv s of (v, s') \<Rightarrow> emit (Store v addr) s')"

text \<open>Modelled from the spec: \<open>ManagedValue::copyInto\<close> is declared outside this file.
  Spec 4.2: the element is copied into the buffer and keeps what it had.\<close>

definition copyInto :: "ManagedValue \<Rightarrow> SILValue \<Rightarrow> SILGenFunction \<Rightarrow> SILGenFunction" where
  "copyInto mv addr s = emit (CopyAddr (getValue mv) addr) s"

text \<open>Modelled from the spec: \<open>emitTemporaryAllocation\<close> is declared outside this file;
  spec 4.2 and 4.5: it allocates a fresh stack buffer (a local cell) and yields its
  address.\<close>

definition emitTemporaryAllocation :: "SILType \<Rightarrow> SILGenFunction \<Rightarrow> SILValue \<times> SILGenFunction" where
  "emitTemporaryAllocation ty s =
     (let a = AllocStackInst (length (emitted s)) ty in (a, emit (Emit a) s))"

subsection \<open>\<open>EmitBBArguments::visitType\<close> and \<open>visitTupleType\<close>\<close>

text \<open>\<open>parameters\<close> is a reference to the helper's queue: the visitor returns what is
  left of it. \<open>loc\<close> is the declaration the location stands for.\<close>

definition visitType ::
  "Env \<Rightarrow> bool \<Rightarrow> VarDecl option \<Rightarrow> Type \<Rightarrow> SILParameterInfo list \<Rightarrow> SILGenFunction
     \<Rightarrow> Error + (ManagedValue \<times> SILParameterInfo list \<times> SILGenFunction)" where
  "visitType env functionArgs loc t parameters s =
     (let argType = getLoweredType env t in
      case parameters of
        [] \<Rightarrow> Inl NoParameterInfo
      | parameterInfo # rest \<Rightarrow>
          if argType \<noteq> infoType parameterInfo then Inl ArgumentTypeMismatch
          else
            (case createFunctionArgument argType loc s of
               (arg, s1) \<Rightarrow>
                 (case getManagedValue arg t parameterInfo s1 of
                    Inl e \<Rightarrow> Inl e
                  | Inr (mv, s2) \<Rightarrow>
                      (let objectType =
                             (case getAnyOptionalObjectType t of
                                Some theObjTy \<Rightarrow> theObjTy
                              | None \<Rightarrow> t)
                       in if functionArgs \<and> isBlockFunctionType objectType
                          then
                            (let blockCopy = CopyBlockInst (getValue mv)
                             in case emitManagedRValueWithCleanup blockCopy
                                       (emit (Emit blockCopy) s2) of
                                  (mv', s3) \<Rightarrow> Inr (mv', rest, s3))
                          else Inr (mv, rest, s2)))))"

text \<open>The loops of \<open>visitTupleType\<close> over the collected elements.\<close>

fun moveOrCopyElements ::
  "ManagedValue list \<Rightarrow> SILGenFunction \<Rightarrow> SILValue list \<times> SILGenFunction" where
  "moveOrCopyElements [] s = ([], s)"
| "moveOrCopyElements (element # elements) s =
     (case (if hasCleanup element then forward element s
            else (case copyUnmanaged element s of (c, s') \<Rightarrow> forward c s')) of
        (value, s1) \<Rightarrow>
          (case moveOrCopyElements elements s1 of
             (values, s2) \<Rightarrow> (value # values, s2)))"

fun moveOrCopyIntoBuffer ::
  "SILValue \<Rightarrow> nat \<Rightarrow> ManagedValue list \<Rightarrow> SILGenFunction \<Rightarrow> SILGenFunction" where
  "moveOrCopyIntoBuffer buffer i [] s = s"
| "moveOrCopyIntoBuffer buffer i (element # elements) s =
     (let elementBuffer =
            TupleElementAddrInst buffer i (getAddressType (getType (getValue element)));
          s1 = emit (Emit elementBuffer) s;
          s2 = (if hasCleanup element then forwardInto element elementBuffer s1
                else copyInto element elementBuffer s1)
      in moveOrCopyIntoBuffer buffer (Suc i) elements s2)"

text \<open>The part of \<open>visitTupleType\<close> after the elements are collected. The flag
  \<open>canBeGuaranteed\<close> starts as \<open>tl.isLoadable()\<close> and is cleared in the loop by every
  element that has a cleanup.\<close>

definition reassembleTuple ::
  "Env \<Rightarrow> Type \<Rightarrow> ManagedValue list \<Rightarrow> SILGenFunction \<Rightarrow> ManagedValue \<times> SILGenFunction" where
  "reassembleTuple env t elements s =
     (let canBeGuaranteed = (isLoadable env t \<and> list_all (\<lambda>elt. \<not> hasCleanup elt) elements)
      in if isLoadable env t \<or> \<not> useLoweredAddresses env
         then
           (case (if canBeGuaranteed then (map getValue elements, s)
                  else moveOrCopyElements elements s) of
              (elementValues, s1) \<Rightarrow>
                (let tupleValue = TupleInst (getLoweredType env t) elementValues;
                     s2 = emit (Emit tupleValue) s1
                 in if canBeGuaranteed then (forUnmanaged tupleValue, s2)
                    else emitManagedRValueWithCleanup tupleValue s2))
         else
           (case emitTemporaryAllocation (getLoweredType env t) s of
              (buffer, s1) \<Rightarrow>
                emitManagedRValueWithCleanup buffer
                  (moveOrCopyIntoBuffer buffer 0 elements s1)))"

fun visit ::
  "Env \<Rightarrow> bool \<Rightarrow> VarDecl option \<Rightarrow> Type \<Rightarrow> SILParameterInfo list \<Rightarrow> SILGenFunction
     \<Rightarrow> Error + (ManagedValue \<times> SILParameterInfo list \<times> SILGenFunction)"
and visitElements ::
  "Env \<Rightarrow> bool \<Rightarrow> VarDecl option \<Rightarrow> Type list \<Rightarrow> SILParameterInfo list \<Rightarrow> SILGenFunction
     \<Rightarrow> Error + (ManagedValue list \<times> SILParameterInfo list \<times> SILGenFunction)"
where
  "visit env functionArgs loc (TupleType ts) parameters s =
     (case visitElements env functionArgs loc ts parameters s of
        Inl e \<Rightarrow> Inl e
      | Inr (elements, parameters', s') \<Rightarrow>
          (case reassembleTuple env (TupleType ts) elements s' of
             (mv, s'') \<Rightarrow> Inr (mv, parameters', s'')))"
| "visit env functionArgs loc t parameters s = visitType env functionArgs loc t parameters s"
| "visitElements env functionArgs loc [] parameters s = Inr ([], parameters, s)"
| "visitElements env functionArgs loc (fieldType # ts) parameters s =
     (case visit env functionArgs loc fieldType parameters s of
        Inl e \<Rightarrow> Inl e
      | Inr (elt, parameters', s') \<Rightarrow>
          (case visitElements env functionArgs loc ts parameters' s' of
             Inl e \<Rightarrow> Inl e
           | Inr (elements, parameters'', s'') \<Rightarrow> Inr (elt # elements, parameters'', s'')))"

definition visitTupleType ::
  "Env \<Rightarrow> bool \<Rightarrow> VarDecl option \<Rightarrow> Type list \<Rightarrow> SILParameterInfo list \<Rightarrow> SILGenFunction
     \<Rightarrow> Error + (ManagedValue \<times> SILParameterInfo list \<times> SILGenFunction)" where
  "visitTupleType env functionArgs loc ts parameters s =
     visit env functionArgs loc (TupleType ts) parameters s"


subsection \<open>Scopes\<close>

text \<open>What a cleanup emits when it fires: \<open>StrongReleaseCleanup::emit\<close> of this file
  destroys the box. Modelled from the spec: the cleanup of \<open>enterDestroyCleanup\<close> is
  declared outside this file; spec 3: it releases its value.\<close>

fun emitCleanup :: "CleanupKind \<Rightarrow> Event" where
  "emitCleanup (StrongReleaseCleanup box) = DestroyValue box"
| "emitCleanup (DestroyValueCleanup v) = DestroyValue v"

text \<open>Modelled from the spec: \<open>Scope\<close> is declared outside this file. Spec 3 and 4.3:
  opening a scope marks the current depth of the cleanup stack.\<close>

definition scopeDepth :: "SILGenFunction \<Rightarrow> nat" where
  "scopeDepth s = length (Cleanups s)"

text \<open>Modelled from the spec: what closing a scope fires. Spec 4.3: every cleanup
  registered since the scope was opened and still active, in strict reverse order of
  registration.\<close>

definition firedBy :: "nat \<Rightarrow> SILGenFunction \<Rightarrow> Event list" where
  "firedBy depth s =
     map (\<lambda>c. emitCleanup (fst c))
       (rev (filter (\<lambda>c. snd c = Active) (drop depth (Cleanups s))))"

text \<open>Modelled from the spec: the destructor of \<open>Scope\<close>. Spec 4.3: it fires the
  cleanups of the scope and marks them popped; the cleanups below the scope's depth are
  not touched.\<close>

definition popScope :: "nat \<Rightarrow> SILGenFunction \<Rightarrow> SILGenFunction" where
  "popScope depth s =
     s\<lparr>emitted := emitted s @ firedBy depth s,
       Cleanups := take depth (Cleanups s) @
                   map (\<lambda>c. (fst c, if snd c = Active then Popped else snd c))
                     (drop depth (Cleanups s))\<rparr>"

subsection \<open>\<open>ArgumentInitHelper\<close>\<close>

record ArgumentInitHelper =
  parameters :: "SILParameterInfo list"
  ArgNo :: nat

definition setVarLoc :: "VarDecl \<Rightarrow> VarLoc \<Rightarrow> SILGenFunction \<Rightarrow> SILGenFunction" where
  "setVarLoc vd l s = s\<lparr>VarLocs := (vd, l) # filter (\<lambda>e. fst e \<noteq> vd) (VarLocs s)\<rparr>"

definition ArgumentInitHelper_makeArgument ::
  "Env \<Rightarrow> Type option \<Rightarrow> VarDecl option \<Rightarrow> ArgumentInitHelper \<Rightarrow> SILGenFunction
     \<Rightarrow> Error + (ManagedValue \<times> ArgumentInitHelper \<times> SILGenFunction)" where
  "ArgumentInitHelper_makeArgument env ty l h s =
     (case ty of
        None \<Rightarrow> Inl NoType
      | Some ty' \<Rightarrow>
          (let canTy = eraseDynamicSelfType env ty' in
           case visit env True l canTy (parameters h) s of
             Inl e \<Rightarrow> Inl e
           | Inr (mv, ps, s') \<Rightarrow> Inr (mv, h\<lparr>parameters := ps\<rparr>, s')))"

definition emitDebugValueFor :: "SILValue \<Rightarrow> bool \<Rightarrow> nat \<Rightarrow> SILGenFunction \<Rightarrow> SILGenFunction" where
  "emitDebugValueFor v constant n s =
     (if isAddress (getType v) then emit (DebugValueAddr v constant n) s
      else emit (DebugValue v [] constant n) s)"

fun isDynamicSelfMetatype :: "Type \<Rightarrow> bool" where
  "isDynamicSelfMetatype (MetatypeType (DynamicSelfType t)) = True"
| "isDynamicSelfMetatype t = False"

fun isMetatypeType :: "Type \<Rightarrow> bool" where
  "isMetatypeType (MetatypeType t) = True"
| "isMetatypeType t = False"

definition bindArgument ::
  "VarDecl \<Rightarrow> ManagedValue \<Rightarrow> ArgumentInitHelper \<Rightarrow> SILGenFunction
     \<Rightarrow> ArgumentInitHelper \<times> SILGenFunction" where
  "bindArgument vd argrv h s =
     (h, emitDebugValueFor (getValue argrv) (isLet vd) (ArgNo h)
           (setVarLoc vd (VarLoc (getValue argrv) None) s))"

text \<open>\<open>makeArgumentIntoBinding\<close>; \<open>bindArgument\<close> is its common tail (the store into
  \<open>VarLocs\<close> and the debug value).\<close>

definition makeArgumentIntoBinding ::
  "Env \<Rightarrow> Type option \<Rightarrow> VarDecl \<Rightarrow> ArgumentInitHelper \<Rightarrow> SILGenFunction
     \<Rightarrow> Error + (ArgumentInitHelper \<times> SILGenFunction)" where
  "makeArgumentIntoBinding env ty vd h s =
     (case ArgumentInitHelper_makeArgument env ty (Some vd) h s of
        Inl e \<Rightarrow> Inl e
      | Inr (argrv, h1, s1) \<Rightarrow>
          (case ty of
             None \<Rightarrow> Inl NoType
           | Some ty' \<Rightarrow>
               if isInOut vd
               then
                 (case declType vd of
                    None \<Rightarrow> Inl NoType
                  | Some vt \<Rightarrow>
                      (let address = getValue argrv;
                           objectType = getInOutObjectType vt
                       in if objectType = BuiltinUnsafeValueBufferType
                          then Inr (h1, emit (DebugValueAddr address (isLet vd) (ArgNo h1))
                                          (setVarLoc vd (VarLoc address None) s1))
                          else if \<not> isAddress (getType (getValue argrv))
                          then Inl ExpectedInOutAddress
                          else Inr (bindArgument vd argrv h1 s1)))
               else if isMetatypeType ty'
               then
                 (if isDynamicSelfMetatype ty'
                  then
                    (let loweredTy = getLoweredType env ty'
                     in if loweredTy \<noteq> getType (getValue argrv)
                        then
                          (let c = UncheckedBitCastInst (getValue argrv) loweredTy
                           in Inr (bindArgument vd (forUnmanaged c) h1 (emit (Emit c) s1)))
                        else Inr (bindArgument vd argrv h1 s1))
                  else Inr (bindArgument vd argrv h1 s1))
               else if \<not> (isLet vd \<or> isShared vd) then Inl ExpectedImmutableParameter
               else Inr (bindArgument vd argrv h1 s1)))"

text \<open>\<open>emitAnonymousParam\<close>; \<open>discardArgument\<close> is its part under the discard scope,
  from the construction of \<open>discardScope\<close> to its destruction at the return.\<close>

definition discardArgument ::
  "Env \<Rightarrow> Type option \<Rightarrow> VarDecl option \<Rightarrow> VarDecl option \<Rightarrow> ArgumentInitHelper
     \<Rightarrow> SILGenFunction \<Rightarrow> Error + (ArgumentInitHelper \<times> SILGenFunction)" where
  "discardArgument env ty paramLoc PD h s =
     (let discardScope = scopeDepth s in
      case ArgumentInitHelper_makeArgument env ty paramLoc h s of
        Inl e \<Rightarrow> Inl e
      | Inr (argrv, h1, s1) \<Rightarrow>
          (case PD of
             None \<Rightarrow> Inr (h1, popScope discardScope s1)
           | Some pd \<Rightarrow>
               Inr (h1, popScope discardScope
                          (emitDebugValueFor (getValue argrv) (isLet pd) (ArgNo h1) s1))))"

fun emitAnonymousParam ::
  "Env \<Rightarrow> Type option \<Rightarrow> VarDecl option \<Rightarrow> VarDecl option \<Rightarrow> ArgumentInitHelper
     \<Rightarrow> SILGenFunction \<Rightarrow> Error + (ArgumentInitHelper \<times> SILGenFunction)"
and emitAnonymousParams ::
  "Env \<Rightarrow> Type list \<Rightarrow> VarDecl option \<Rightarrow> ArgumentInitHelper
     \<Rightarrow> SILGenFunction \<Rightarrow> Error + (ArgumentInitHelper \<times> SILGenFunction)"
where
  "emitAnonymousParam env (Some (TupleType ts)) paramLoc PD h s =
     (if \<not> isMaterializable env (TupleType ts)
      then emitAnonymousParams env ts paramLoc h s
      else discardArgument env (Some (TupleType ts)) paramLoc PD h s)"
| "emitAnonymousParam env ty paramLoc PD h s = discardArgument env ty paramLoc PD h s"
| "emitAnonymousParams env [] paramLoc h s = Inr (h, s)"
| "emitAnonymousParams env (eltType # ts) paramLoc h s =
     (case emitAnonymousParam env (Some eltType) paramLoc None h s of
        Inl e \<Rightarrow> Inl e
      | Inr (h1, s1) \<Rightarrow> emitAnonymousParams env ts paramLoc h1 s1)"

definition emitParam ::
  "Env \<Rightarrow> VarDecl \<Rightarrow> ArgumentInitHelper \<Rightarrow> SILGenFunction
     \<Rightarrow> Error + (ArgumentInitHelper \<times> SILGenFunction)" where
  "emitParam env PD h s =
     (let ty = declType PD;
          h1 = h\<lparr>ArgNo := ArgNo h + 1\<rparr>
      in if hasName PD then makeArgumentIntoBinding env ty PD h1 s
         else emitAnonymousParam env ty (Some PD) (Some PD) h1 s)"

subsection \<open>Forwarding: the static \<open>makeArgument\<close> and \<open>bindParametersForForwarding\<close>\<close>

text \<open>The static \<open>makeArgument\<close> asserts that its type is not null; its only caller
  passes the parameter's type when it has one and the mapped interface type otherwise,
  and the recursion passes element types, so the type is a \<open>Type\<close> here.\<close>

fun makeArgument ::
  "Env \<Rightarrow> Type \<Rightarrow> VarDecl \<Rightarrow> SILValue list \<Rightarrow> SILGenFunction
     \<Rightarrow> SILValue list \<times> SILGenFunction"
and makeArguments ::
  "Env \<Rightarrow> Type list \<Rightarrow> VarDecl \<Rightarrow> SILValue list \<Rightarrow> SILGenFunction
     \<Rightarrow> SILValue list \<times> SILGenFunction"
where
  "makeArgument env (TupleType ts) decl args s = makeArguments env ts decl args s"
| "makeArgument env ty decl args s =
     (case createFunctionArgument (getLoweredType env ty) (Some decl) s of
        (arg, s') \<Rightarrow> (args @ [arg], s'))"
| "makeArguments env [] decl args s = (args, s)"
| "makeArguments env (fieldType # ts) decl args s =
     (case makeArgument env fieldType decl args s of
        (args', s') \<Rightarrow> makeArguments env ts decl args' s')"

fun bindParametersForForwarding ::
  "Env \<Rightarrow> VarDecl list \<Rightarrow> SILValue list \<Rightarrow> SILGenFunction
     \<Rightarrow> SILValue list \<times> SILGenFunction" where
  "bindParametersForForwarding env [] params s = (params, s)"
| "bindParametersForForwarding env (param # rest) params s =
     (let type = (case declType param of
                    Some t \<Rightarrow> t
                  | None \<Rightarrow> F_mapTypeIntoContext env (interfaceType param))
      in case makeArgument env (eraseDynamicSelfType env type) param params s of
           (params', s') \<Rightarrow> bindParametersForForwarding env rest params' s')"


subsection \<open>Captures\<close>

fun isAllocStack :: "SILValue \<Rightarrow> bool" where
  "isAllocStack (AllocStackInst n ty) = True"
| "isAllocStack v = False"

definition emitCaptureArguments ::
  "Env \<Rightarrow> CapturedValue \<Rightarrow> nat \<Rightarrow> SILGenFunction \<Rightarrow> SILGenFunction" where
  "emitCaptureArguments env capture argNo s =
     (let VD = getDecl capture;
          type = closure_mapTypeIntoContext env (interfaceType VD)
      in case getDeclCaptureKind env capture of
           CKNone \<Rightarrow> s
         | CKConstant \<Rightarrow>
             (let ty = getLoweredType env type in
              case createFunctionArgument ty (Some VD) s of
                (val0, s1) \<Rightarrow>
                  (let NeedToDestroyValueAtExit0 = (\<not> EnableGuaranteedClosureContexts env);
                       (val, NeedToDestroyValueAtExit, s2) =
                         (if isSettable VD
                          then
                            (case emitTemporaryAllocation ty s1 of
                               (addr, sa) \<Rightarrow>
                                 (let (val1, need1, sb) =
                                        (if EnableGuaranteedClosureContexts env
                                         then (CopyValueInst val0, True,
                                               emit (Emit (CopyValueInst val0)) sa)
                                         else (val0, NeedToDestroyValueAtExit0, sa))
                                  in (addr, need1, emit (Store val1 addr) sb)))
                          else (val0, NeedToDestroyValueAtExit0, s1));
                       s3 = setVarLoc VD (VarLoc val None) s2;
                       s4 = (if isAllocStack val then emit (SetArgNo val argNo) s3
                             else emit (DebugValue val [] True argNo) s3)
                   in if NeedToDestroyValueAtExit \<and> \<not> isTrivial env type
                      then snd (enterDestroyCleanup val s4)
                      else s4))
         | CKBox \<Rightarrow>
             (let boxTy = getContextBoxTypeForCapture env VD
                            (getSwiftRValueType (getLoweredType env type)) in
              case createFunctionArgument (getPrimitiveObjectType boxTy) (Some VD) s of
                (box, s1) \<Rightarrow>
                  (let addr = ProjectBoxInst box 0;
                       s2 = emit (Emit addr) s1;
                       s3 = setVarLoc VD (VarLoc addr (Some box)) s2;
                       s4 = emit (DebugValueAddr addr False argNo) s3
                   in if \<not> EnableGuaranteedClosureContexts env
                      then snd (pushCleanup (StrongReleaseCleanup box) s4)
                      else s4))
         | CKStorageAddress \<Rightarrow>
             (let ty = getAddressType (getLoweredType env type) in
              case createFunctionArgument ty (Some VD) s of
                (addr, s1) \<Rightarrow>
                  emit (DebugValueAddr addr True argNo)
                    (setVarLoc VD (VarLoc addr None) s1)))"

subsection \<open>Indirect results and \<open>emitProlog\<close>\<close>

definition returnValueDecl :: "Type \<Rightarrow> VarDecl" where
  "returnValueDecl resultType =
     \<lparr>declName = ''$return_value'', declType = None, interfaceType = resultType,
      isLet = False, isInOut = True, isShared = False, isSettable = True\<rparr>"

fun emitIndirectResultParameters :: "Env \<Rightarrow> Type \<Rightarrow> SILGenFunction \<Rightarrow> SILGenFunction"
and emitIndirectResultParametersOfElements ::
  "Env \<Rightarrow> Type list \<Rightarrow> SILGenFunction \<Rightarrow> SILGenFunction"
where
  "emitIndirectResultParameters env (TupleType ts) s =
     emitIndirectResultParametersOfElements env ts s"
| "emitIndirectResultParameters env resultType s =
     (let loweredTy = getLoweredType env (DC_mapTypeIntoContext env resultType)
      in if \<not> isReturnedIndirectlyInSIL env loweredTy then s
         else snd (createFunctionArgument loweredTy (Some (returnValueDecl resultType)) s))"
| "emitIndirectResultParametersOfElements env [] s = s"
| "emitIndirectResultParametersOfElements env (eltType # ts) s =
     emitIndirectResultParametersOfElements env ts (emitIndirectResultParameters env eltType s)"

fun emitParams ::
  "Env \<Rightarrow> VarDecl list \<Rightarrow> ArgumentInitHelper \<Rightarrow> SILGenFunction
     \<Rightarrow> Error + (ArgumentInitHelper \<times> SILGenFunction)" where
  "emitParams env [] h s = Inr (h, s)"
| "emitParams env (param # rest) h s =
     (case emitParam env param h s of
        Inl e \<Rightarrow> Inl e
      | Inr (h1, s1) \<Rightarrow> emitParams env rest h1 s1)"

fun emitParamLists ::
  "Env \<Rightarrow> VarDecl list list \<Rightarrow> ArgumentInitHelper \<Rightarrow> SILGenFunction
     \<Rightarrow> Error + (ArgumentInitHelper \<times> SILGenFunction)" where
  "emitParamLists env [] h s = Inr (h, s)"
| "emitParamLists env (paramList # rest) h s =
     (case emitParams env paramList h s of
        Inl e \<Rightarrow> Inl e
      | Inr (h1, s1) \<Rightarrow> emitParamLists env rest h1 s1)"

text \<open>\<open>unsigned SILGenFunction::emitProlog(paramLists, resultType, DC, throws)\<close>.\<close>

definition emitProlog ::
  "Env \<Rightarrow> VarDecl list list \<Rightarrow> Type \<Rightarrow> bool \<Rightarrow> SILGenFunction
     \<Rightarrow> Error + (nat \<times> SILGenFunction)" where
  "emitProlog env paramLists resultType throws s =
     (let s1 = emitIndirectResultParameters env (getCanonicalType env resultType) s;
          emitter = \<lparr>parameters = loweredParameters env, ArgNo = 0\<rparr>
      in case emitParamLists env (rev paramLists) emitter s1 of
           Inl e \<Rightarrow> Inl e
         | Inr (emitter', s2) \<Rightarrow>
             (let argNo = ArgNo emitter'
              in if throws
                 then Inr (argNo + 1,
                           emit (DebugValue (SILUndef getExceptionType) ''$error'' False
                                   (argNo + 1)) s2)
                 else Inr (argNo, s2)))"

text \<open>The loop of the \<open>AnyFunctionRef\<close> overload over the lowered captures.\<close>

fun emitCaptures ::
  "Env \<Rightarrow> Type \<Rightarrow> CapturedValue list \<Rightarrow> nat \<Rightarrow> SILGenFunction \<Rightarrow> SILGenFunction" where
  "emitCaptures env dynamicSelfType [] argNo s = s"
| "emitCaptures env dynamicSelfType (capture # rest) argNo s =
     (if isDynamicSelfMetadata capture
      then
        (let selfMetatype = MetatypeType dynamicSelfType;
             ty = getLoweredType env selfMetatype
         in snd (createFunctionArgument ty None s))
      else emitCaptures env dynamicSelfType rest (argNo + 1)
             (emitCaptureArguments env capture (argNo + 1) s))"

text \<open>\<open>void SILGenFunction::emitProlog(TheClosure, paramPatterns, resultType, throws)\<close>;
  \<open>captures\<close> and \<open>dynamicSelfType\<close> are what \<open>getLoweredLocalCaptures(TheClosure)\<close>
  holds.\<close>

definition emitPrologClosure ::
  "Env \<Rightarrow> CapturedValue list \<Rightarrow> Type \<Rightarrow> VarDecl list list \<Rightarrow> Type \<Rightarrow> bool \<Rightarrow> SILGenFunction
     \<Rightarrow> Error + SILGenFunction" where
  "emitPrologClosure env captures dynamicSelfType paramPatterns resultType throws s =
     (case emitProlog env paramPatterns resultType throws s of
        Inl e \<Rightarrow> Inl e
      | Inr (argNo, s1) \<Rightarrow> Inr (emitCaptures env dynamicSelfType captures argNo s1))"


subsection \<open>Notions used to state the properties\<close>

text \<open>The scalar leaves of a type, tuples expanded depth-first, left to right.\<close>

fun flattenedLeaves :: "Type \<Rightarrow> Type list"
and flattenedLeavesOfElements :: "Type list \<Rightarrow> Type list" where
  "flattenedLeaves (TupleType ts) = flattenedLeavesOfElements ts"
| "flattenedLeaves t = [t]"
| "flattenedLeavesOfElements [] = []"
| "flattenedLeavesOfElements (t # ts) = flattenedLeaves t @ flattenedLeavesOfElements ts"

text \<open>The entry-block arguments created for a list of leaves, the first one at index
  \<open>n\<close>, all carrying the declaration \<open>d\<close>.\<close>

definition argumentsFor :: "Env \<Rightarrow> VarDecl option \<Rightarrow> nat \<Rightarrow> Type list \<Rightarrow> Event list" where
  "argumentsFor env d n ls =
     map (\<lambda>(i, leaf). CreateFunctionArgument (FunctionArgument i (getLoweredType env leaf) d))
       (enumerate n ls)"

text \<open>A parameter info that \<open>visitType\<close> goes through with for a leaf: its type is
  the leaf's lowered type (the assertion) and its convention is one of those
  \<open>getManagedValue\<close> handles.\<close>

definition accepts :: "Env \<Rightarrow> Type \<Rightarrow> SILParameterInfo \<Rightarrow> bool" where
  "accepts env leaf info =
     (infoType info = getLoweredType env leaf \<and> getConvention info \<noteq> Indirect_In_Constant)"

text \<open>A concrete environment and state for the examples: every type lowers to an
  object of itself, is loadable and non-trivial.\<close>

definition sampleEnv :: Env where
  "sampleEnv =
     \<lparr>getLoweredType = (\<lambda>t. SILType t False), isLoadable = (\<lambda>t. True),
      isTrivial = (\<lambda>t. False), isMaterializable = (\<lambda>t. True),
      isReturnedIndirectlyInSIL = (\<lambda>ty. False), useLoweredAddresses = True,
      EnableGuaranteedClosureContexts = False, eraseDynamicSelfType = (\<lambda>t. t),
      getCanonicalType = (\<lambda>t. t),
      F_mapTypeIntoContext = (\<lambda>t. t), DC_mapTypeIntoContext = (\<lambda>t. t),
      closure_mapTypeIntoContext = (\<lambda>t. t), loweredParameters = [],
      getDeclCaptureKind = (\<lambda>c. CKConstant), getContextBoxTypeForCapture = (\<lambda>vd t. t)\<rparr>"

definition emptyState :: SILGenFunction where
  "emptyState = \<lparr>emitted = [], Cleanups = [], VarLocs = []\<rparr>"

definition owned :: "Type \<Rightarrow> SILParameterInfo" where
  "owned t = \<lparr>getConvention = Direct_Owned, infoType = SILType t False\<rparr>"

definition guaranteed :: "Type \<Rightarrow> SILParameterInfo" where
  "guaranteed t = \<lparr>getConvention = Direct_Guaranteed, infoType = SILType t False\<rparr>"


text \<open>A cleanup handle whose release is still pending.\<close>

definition isActive :: "SILGenFunction \<Rightarrow> CleanupHandle \<Rightarrow> bool" where
  "isActive s k = (k < length (Cleanups s) \<and> snd (Cleanups s ! k) = Active)"

text \<open>The handles the elements of a tuple carry; what \<open>visitTupleType\<close> puts into the
  aggregate for an element (the element itself when it is owned, a copy when it is
  borrowed); the copies it emits; and the writes into the buffer of an address-only
  tuple.\<close>

fun elementCleanups :: "ManagedValue list \<Rightarrow> CleanupHandle list" where
  "elementCleanups [] = []"
| "elementCleanups (e # es) =
     (case cleanup e of None \<Rightarrow> elementCleanups es | Some h \<Rightarrow> h # elementCleanups es)"

definition movedValue :: "ManagedValue \<Rightarrow> SILValue" where
  "movedValue e = (if hasCleanup e then getValue e else CopyValueInst (getValue e))"

fun copiesEmitted :: "ManagedValue list \<Rightarrow> Event list" where
  "copiesEmitted [] = []"
| "copiesEmitted (e # es) =
     (if hasCleanup e then [] else [Emit (CopyValueInst (getValue e))]) @ copiesEmitted es"

fun bufferWrites :: "SILValue \<Rightarrow> nat \<Rightarrow> ManagedValue list \<Rightarrow> Event list" where
  "bufferWrites buffer i [] = []"
| "bufferWrites buffer i (e # es) =
     (let elementBuffer = TupleElementAddrInst buffer i (getAddressType (getType (getValue e)))
      in [Emit elementBuffer,
          if hasCleanup e then Store (getValue e) elementBuffer
          else CopyAddr (getValue e) elementBuffer]) @ bufferWrites buffer (Suc i) es"

text \<open>Two more environments: address-only types in a module that does not use lowered
  addresses, and address-only types in one that does.\<close>

definition opaqueEnv :: Env where
  "opaqueEnv = sampleEnv\<lparr>isLoadable := (\<lambda>t. False), useLoweredAddresses := False\<rparr>"

definition addressOnlyEnv :: Env where
  "addressOnlyEnv = sampleEnv\<lparr>isLoadable := (\<lambda>t. False)\<rparr>"


text \<open>An environment in guaranteed-closure-context mode, and example declarations and
  captures.\<close>

definition guaranteedEnv :: Env where
  "guaranteedEnv = sampleEnv\<lparr>EnableGuaranteedClosureContexts := True\<rparr>"

definition letDecl :: "string \<Rightarrow> Type \<Rightarrow> VarDecl" where
  "letDecl n t = \<lparr>declName = n, declType = Some t, interfaceType = t, isLet = True,
     isInOut = False, isShared = False, isSettable = False\<rparr>"

definition varDecl :: "string \<Rightarrow> Type \<Rightarrow> VarDecl" where
  "varDecl n t = \<lparr>declName = n, declType = Some t, interfaceType = t, isLet = False,
     isInOut = False, isShared = False, isSettable = True\<rparr>"

definition captureOf :: "VarDecl \<Rightarrow> CapturedValue" where
  "captureOf vd = \<lparr>getDecl = vd, isDynamicSelfMetadata = False\<rparr>"

definition dynamicSelfCapture :: "VarDecl \<Rightarrow> CapturedValue" where
  "dynamicSelfCapture vd = \<lparr>getDecl = vd, isDynamicSelfMetadata = True\<rparr>"


text \<open>The argument values created for a list of leaves; the type
  \<open>bindParametersForForwarding\<close> destructures for a parameter; the arguments it creates
  for a parameter list, one per leaf, parameter after parameter; and a state extended by
  argument creations only.\<close>

definition leafArguments :: "Env \<Rightarrow> VarDecl option \<Rightarrow> nat \<Rightarrow> Type list \<Rightarrow> SILValue list" where
  "leafArguments env d n ls =
     map (\<lambda>(i, leaf). FunctionArgument i (getLoweredType env leaf) d) (enumerate n ls)"

definition forwardingType :: "Env \<Rightarrow> VarDecl \<Rightarrow> Type" where
  "forwardingType env param =
     eraseDynamicSelfType env
       (case declType param of
          Some t \<Rightarrow> t
        | None \<Rightarrow> F_mapTypeIntoContext env (interfaceType param))"

fun forwardedArguments :: "Env \<Rightarrow> nat \<Rightarrow> VarDecl list \<Rightarrow> SILValue list" where
  "forwardedArguments env n [] = []"
| "forwardedArguments env n (param # rest) =
     leafArguments env (Some param) n (flattenedLeaves (forwardingType env param)) @
     forwardedArguments env (n + length (flattenedLeaves (forwardingType env param))) rest"

definition appendArguments :: "SILValue list \<Rightarrow> SILGenFunction \<Rightarrow> SILGenFunction" where
  "appendArguments vs s = s\<lparr>emitted := emitted s @ map CreateFunctionArgument vs\<rparr>"


text \<open>Two relations between a state and a later one. \<open>materializes\<close>: code was only
  appended, no variable was bound, the cleanup stack only grew and no cleanup that was
  there became pending again. \<open>discards\<close>: moreover no cleanup registered in between is
  still pending.\<close>

definition materializes :: "SILGenFunction \<Rightarrow> SILGenFunction \<Rightarrow> bool" where
  "materializes s s' =
     (prefix (emitted s) (emitted s') \<and> VarLocs s' = VarLocs s \<and>
      length (Cleanups s) \<le> length (Cleanups s') \<and>
      (\<forall>k<length (Cleanups s). isActive s' k \<longrightarrow> isActive s k))"


text \<open>The pieces into which \<open>emitAnonymousParam\<close> splits a type: a tuple that is
  not materializable is split into the pieces of its elements, anything else is one
  piece. \<open>erasedLeaves\<close> are the scalar leaves of a list of pieces, each with dynamic
  Self erased; \<open>discardEach\<close> materializes and discards the pieces one after the
  other.\<close>

fun isTupleType :: "Type \<Rightarrow> bool" where
  "isTupleType (TupleType ts) = True"
| "isTupleType t = False"

fun anonymousLeaves :: "Env \<Rightarrow> Type \<Rightarrow> Type list"
and anonymousLeavesOfElements :: "Env \<Rightarrow> Type list \<Rightarrow> Type list" where
  "anonymousLeaves env (TupleType ts) =
     (if \<not> isMaterializable env (TupleType ts) then anonymousLeavesOfElements env ts
      else [TupleType ts])"
| "anonymousLeaves env t = [t]"
| "anonymousLeavesOfElements env [] = []"
| "anonymousLeavesOfElements env (t # ts) =
     anonymousLeaves env t @ anonymousLeavesOfElements env ts"

definition erasedLeaves :: "Env \<Rightarrow> Type list \<Rightarrow> Type list" where
  "erasedLeaves env cs = concat (map (\<lambda>c. flattenedLeaves (eraseDynamicSelfType env c)) cs)"

fun discardEach ::
  "Env \<Rightarrow> Type list \<Rightarrow> VarDecl option \<Rightarrow> ArgumentInitHelper \<Rightarrow> SILGenFunction
     \<Rightarrow> Error + (ArgumentInitHelper \<times> SILGenFunction)" where
  "discardEach env [] paramLoc h s = Inr (h, s)"
| "discardEach env (t # ts) paramLoc h s =
     (case discardArgument env (Some t) paramLoc None h s of
        Inl e \<Rightarrow> Inl e
      | Inr (h1, s1) \<Rightarrow> discardEach env ts paramLoc h1 s1)"

definition discards :: "SILGenFunction \<Rightarrow> SILGenFunction \<Rightarrow> bool" where
  "discards s s' = (materializes s s' \<and> (\<forall>k. isActive s' k \<longrightarrow> k < length (Cleanups s)))"

text \<open>The scalar leaves for which \<open>emitParam\<close> creates arguments, the arguments of a
  parameter list, the arguments of the indirect results, the arguments of the captures,
  and the marker of the error slot.\<close>

definition paramLeaves :: "Env \<Rightarrow> VarDecl \<Rightarrow> Type list" where
  "paramLeaves env PD =
     (case declType PD of
        None \<Rightarrow> []
      | Some ty \<Rightarrow>
          if hasName PD then flattenedLeaves (eraseDynamicSelfType env ty)
          else erasedLeaves env (anonymousLeaves env ty))"

fun paramArguments :: "Env \<Rightarrow> nat \<Rightarrow> VarDecl list \<Rightarrow> SILValue list" where
  "paramArguments env n [] = []"
| "paramArguments env n (PD # rest) =
     leafArguments env (Some PD) n (paramLeaves env PD) @
     paramArguments env (n + length (paramLeaves env PD)) rest"

fun indirectResults :: "Env \<Rightarrow> nat \<Rightarrow> Type list \<Rightarrow> SILValue list" where
  "indirectResults env n [] = []"
| "indirectResults env n (leaf # ls) =
     (let loweredTy = getLoweredType env (DC_mapTypeIntoContext env leaf)
      in if isReturnedIndirectlyInSIL env loweredTy
         then FunctionArgument n loweredTy (Some (returnValueDecl leaf)) #
              indirectResults env (Suc n) ls
         else indirectResults env n ls)"

definition captureArgumentType :: "Env \<Rightarrow> CapturedValue \<Rightarrow> SILType" where
  "captureArgumentType env c =
     (let VD = getDecl c;
          type = closure_mapTypeIntoContext env (interfaceType VD)
      in case getDeclCaptureKind env c of
           CKBox \<Rightarrow>
             getPrimitiveObjectType
               (getContextBoxTypeForCapture env VD (getSwiftRValueType (getLoweredType env type)))
         | CKStorageAddress \<Rightarrow> getAddressType (getLoweredType env type)
         | _ \<Rightarrow> getLoweredType env type)"

fun captureArguments :: "Env \<Rightarrow> nat \<Rightarrow> CapturedValue list \<Rightarrow> SILValue list" where
  "captureArguments env n [] = []"
| "captureArguments env n (c # cs) =
     (if getDeclCaptureKind env c = CKNone then captureArguments env n cs
      else FunctionArgument n (captureArgumentType env c) (Some (getDecl c)) #
           captureArguments env (Suc n) cs)"

definition errorSlot :: "nat \<Rightarrow> Event" where
  "errorSlot n = DebugValue (SILUndef getExceptionType) ''$error'' False n"


text \<open>Environments and a declaration for further examples.\<close>

definition exampleParams :: "VarDecl list" where
  "exampleParams = [letDecl ''x'' (NominalType ''Int'')]"

definition closureEnv :: Env where
  "closureEnv = sampleEnv\<lparr>loweredParameters := [guaranteed (NominalType ''Int'')]\<rparr>"

definition indirectEnv :: Env where
  "indirectEnv =
     sampleEnv\<lparr>loweredParameters := [guaranteed (NominalType ''Int'')],
                isReturnedIndirectlyInSIL := (\<lambda>ty. ty = SILType (NominalType ''P'') False)\<rparr>"

definition anonymousDecl :: "Type \<Rightarrow> VarDecl" where
  "anonymousDecl t = \<lparr>declName = [], declType = Some t, interfaceType = t, isLet = True,
     isInOut = False, isShared = False, isSettable = False\<rparr>"

definition inoutTupleEnv :: Env where
  "inoutTupleEnv =
     sampleEnv\<lparr>loweredParameters :=
                  [owned (NominalType ''A''),
                   \<lparr>getConvention = Indirect_Inout, infoType = SILType (InOutType (NominalType ''B'')) False\<rparr>],
                isMaterializable :=
                  (\<lambda>t. t \<noteq> TupleType [NominalType ''A'', InOutType (NominalType ''B'')])\<rparr>"


definition nestedTupleEnv :: Env where
  "nestedTupleEnv =
     sampleEnv\<lparr>loweredParameters :=
                  [owned (NominalType ''A''), owned (NominalType ''B''),
                   \<lparr>getConvention = Indirect_Inout,
                      infoType = SILType (InOutType (NominalType ''C'')) False\<rparr>],
                isMaterializable :=
                  (\<lambda>t. t \<noteq> TupleType [TupleType [NominalType ''A'', NominalType ''B''],
                                        InOutType (NominalType ''C'')])\<rparr>"

definition nestedTupleDecl :: VarDecl where
  "nestedTupleDecl =
     anonymousDecl (TupleType [TupleType [NominalType ''A'', NominalType ''B''],
                               InOutType (NominalType ''C'')])"


section \<open>Properties\<close>

subsection \<open>Ownership convention of a scalar argument\<close>

text \<open>
  C1. \<open>getManagedValue\<close> resolves the convention of a scalar leaf as follows. Guaranteed
  and indirect-guaranteed: the incoming value, unmanaged, nothing emitted and no cleanup
  registered. Unowned: a retain of the incoming value is emitted at once and a release
  cleanup for it is registered, the result holding its handle. Owned and indirect-in: a
  release cleanup is registered for the incoming value and nothing is emitted (no
  retain). InOut and InoutAliasable: the incoming address as an lvalue, nothing emitted
  and no cleanup registered.
\<close>

theorem getManagedValue_by_convention:
  "(getConvention info = Direct_Guaranteed \<or> getConvention info = Indirect_In_Guaranteed \<longrightarrow>
      getManagedValue arg t info s =
        Inr (\<lparr>getValue = arg, isLValue = False, cleanup = None\<rparr>, s))
   \<and> (getConvention info = Direct_Unowned \<longrightarrow>
      getManagedValue arg t info s =
        Inr (\<lparr>getValue = arg, isLValue = False, cleanup = Some (length (Cleanups s))\<rparr>,
             s\<lparr>emitted := emitted s @ [RetainValue arg],
               Cleanups := Cleanups s @ [(DestroyValueCleanup arg, Active)]\<rparr>))
   \<and> (getConvention info = Direct_Owned \<or> getConvention info = Indirect_In \<longrightarrow>
      getManagedValue arg t info s =
        Inr (\<lparr>getValue = arg, isLValue = False, cleanup = Some (length (Cleanups s))\<rparr>,
             s\<lparr>Cleanups := Cleanups s @ [(DestroyValueCleanup arg, Active)]\<rparr>))
   \<and> (getConvention info = Indirect_Inout \<or> getConvention info = Indirect_InoutAliasable \<longrightarrow>
      getManagedValue arg t info s =
        Inr (\<lparr>getValue = arg, isLValue = True, cleanup = None\<rparr>, s))"
  by (auto simp: getManagedValue_def forUnmanaged_def forLValue_def emitManagedRetain_def
      emitManagedRValueWithCleanup_def enterDestroyCleanup_def pushCleanup_def emit_def)

theorem getManagedValue_by_convention_witness:
  "getManagedValue (SILUndef getExceptionType) (NominalType ''C'')
     \<lparr>getConvention = Direct_Unowned, infoType = getExceptionType\<rparr>
     \<lparr>emitted = [], Cleanups = [], VarLocs = []\<rparr>
   = Inr (\<lparr>getValue = SILUndef getExceptionType, isLValue = False, cleanup = Some 0\<rparr>,
          \<lparr>emitted = [RetainValue (SILUndef getExceptionType)],
           Cleanups = [(DestroyValueCleanup (SILUndef getExceptionType), Active)],
           VarLocs = []\<rparr>)"
  using getManagedValue_by_convention
    [of "\<lparr>getConvention = Direct_Unowned, infoType = getExceptionType\<rparr>"
        "SILUndef getExceptionType" "NominalType ''C''"
        "\<lparr>emitted = [], Cleanups = [], VarLocs = []\<rparr>"]
  by simp


subsection \<open>Leaf and convention parity of the type destructurer\<close>

lemma argumentsFor_Nil [simp]: "argumentsFor env d n [] = []"
  by (simp add: argumentsFor_def)

lemma argumentsFor_single [simp]:
  "argumentsFor env d n [t] = [CreateFunctionArgument (FunctionArgument n (getLoweredType env t) d)]"
  by (simp add: argumentsFor_def)

lemma argumentsFor_append:
  "argumentsFor env d n (xs @ ys) = argumentsFor env d n xs @ argumentsFor env d (n + length xs) ys"
  by (simp add: argumentsFor_def enumerate_append_eq)

lemma length_argumentsFor [simp]: "length (argumentsFor env d n ls) = length ls"
  by (simp add: argumentsFor_def)

lemma entryArguments_emit:
  "entryArguments (emit e s) = entryArguments s @ (if isArgument e then [e] else [])"
  by (simp add: entryArguments_def emit_def)

lemma entryArguments_Cleanups_update [simp]:
  "entryArguments (s\<lparr>Cleanups := c\<rparr>) = entryArguments s"
  by (simp add: entryArguments_def)

lemma entryArguments_setCleanupState [simp]:
  "entryArguments (setCleanupState h st s) = entryArguments s"
  by (simp add: setCleanupState_def)

lemma entryArguments_emitManagedRValueWithCleanup:
  "emitManagedRValueWithCleanup v s = (mv, s') \<Longrightarrow> entryArguments s' = entryArguments s"
  by (auto simp: emitManagedRValueWithCleanup_def enterDestroyCleanup_def pushCleanup_def)

lemma entryArguments_forward:
  "forward mv s = (v, s') \<Longrightarrow> entryArguments s' = entryArguments s"
  by (auto simp: forward_def split: option.splits)

lemma entryArguments_copyUnmanaged:
  "copyUnmanaged mv s = (c, s') \<Longrightarrow> entryArguments s' = entryArguments s"
  by (auto simp: copyUnmanaged_def Let_def entryArguments_emit
      dest!: entryArguments_emitManagedRValueWithCleanup)

lemma entryArguments_moveOrCopyElements:
  "moveOrCopyElements es s = (vs, s') \<Longrightarrow> entryArguments s' = entryArguments s"
proof (induction es arbitrary: s vs s')
  case Nil
  then show ?case by simp
next
  case (Cons e es)
  obtain v s1 where f: "(if hasCleanup e then forward e s
            else (case copyUnmanaged e s of (c, s') \<Rightarrow> forward c s')) = (v, s1)"
    by (cases "(if hasCleanup e then forward e s
            else (case copyUnmanaged e s of (c, s') \<Rightarrow> forward c s'))")
  have e1: "entryArguments s1 = entryArguments s"
    using f
    by (auto split: if_splits prod.splits
        dest!: entryArguments_forward entryArguments_copyUnmanaged)
  obtain vs' s2 where m: "moveOrCopyElements es s1 = (vs', s2)"
    by (cases "moveOrCopyElements es s1")
  from Cons.prems f m have "s' = s2" by simp
  with Cons.IH [OF m] e1 show ?case by simp
qed

lemma entryArguments_forwardInto [simp]:
  "entryArguments (forwardInto mv a s) = entryArguments s"
  by (auto simp: forwardInto_def entryArguments_emit split: prod.splits
      dest!: entryArguments_forward)

lemma entryArguments_copyInto [simp]:
  "entryArguments (copyInto mv a s) = entryArguments s"
  by (simp add: copyInto_def entryArguments_emit)

lemma entryArguments_moveOrCopyIntoBuffer [simp]:
  "entryArguments (moveOrCopyIntoBuffer b i es s) = entryArguments s"
  by (induction es arbitrary: s i) (simp_all add: Let_def entryArguments_emit)

lemma entryArguments_reassembleTuple:
  assumes "reassembleTuple env t es s = (mv, s')"
  shows "entryArguments s' = entryArguments s"
proof (cases "isLoadable env t \<or> \<not> useLoweredAddresses env")
  case True
  show ?thesis
  proof (cases "isLoadable env t \<and> list_all (\<lambda>elt. \<not> hasCleanup elt) es")
    case g: True
    with assms True show ?thesis
      by (auto simp: reassembleTuple_def Let_def entryArguments_emit)
  next
    case g: False
    obtain vs s1 where m: "moveOrCopyElements es s = (vs, s1)"
      by (cases "moveOrCopyElements es s")
    let ?tv = "TupleInst (getLoweredType env t) vs"
    from assms True g m
    have "emitManagedRValueWithCleanup ?tv (emit (Emit ?tv) s1) = (mv, s')"
      by (simp add: reassembleTuple_def Let_def)
    from entryArguments_emitManagedRValueWithCleanup [OF this]
      entryArguments_moveOrCopyElements [OF m]
    show ?thesis by (simp add: entryArguments_emit)
  qed
next
  case False
  let ?b = "AllocStackInst (length (emitted s)) (getLoweredType env t)"
  from assms False
  have "emitManagedRValueWithCleanup ?b (moveOrCopyIntoBuffer ?b 0 es (emit (Emit ?b) s)) = (mv, s')"
    by (simp add: reassembleTuple_def Let_def emitTemporaryAllocation_def)
  from entryArguments_emitManagedRValueWithCleanup [OF this]
  show ?thesis by (simp add: entryArguments_emit)
qed

lemma entryArguments_getManagedValue:
  "getManagedValue arg t info s = Inr (mv, s') \<Longrightarrow> entryArguments s' = entryArguments s"
  by (auto simp: getManagedValue_def emitManagedRetain_def emitManagedRValueWithCleanup_def
      enterDestroyCleanup_def pushCleanup_def entryArguments_emit
      split: ParameterConvention.splits)

lemma getManagedValue_Inr_iff:
  "(\<exists>r. getManagedValue arg t info s = Inr r) = (getConvention info \<noteq> Indirect_In_Constant)"
  by (cases "getConvention info") (simp_all add: getManagedValue_def)

lemma visitType_sound:
  assumes "visitType env fa loc t ps s = Inr (mv, ps', s')"
  shows "\<exists>p. ps = p # ps' \<and> accepts env t p \<and>
             entryArguments s' = entryArguments s @ argumentsFor env loc (length (entryArguments s)) [t]"
proof (cases ps)
  case Nil
  with assms show ?thesis by (simp add: visitType_def)
next
  case (Cons p rest)
  let ?arg = "FunctionArgument (length (entryArguments s)) (getLoweredType env t) loc"
  let ?s1 = "emit (CreateFunctionArgument ?arg) s"
  from assms Cons have ty: "infoType p = getLoweredType env t"
    by (auto simp: visitType_def Let_def split: if_splits)
  from assms Cons ty obtain mv0 s2 where g: "getManagedValue ?arg t p ?s1 = Inr (mv0, s2)"
    by (auto simp: visitType_def Let_def createFunctionArgument_def split: sum.splits)
  have conv: "getConvention p \<noteq> Indirect_In_Constant"
    using getManagedValue_Inr_iff [of ?arg t p ?s1] g by auto
  have e2: "entryArguments s2 = entryArguments s @ [CreateFunctionArgument ?arg]"
    using entryArguments_getManagedValue [OF g] by (simp add: entryArguments_emit)
  have "ps' = rest \<and> entryArguments s' = entryArguments s2"
    using assms Cons ty g
    by (auto simp: visitType_def Let_def createFunctionArgument_def entryArguments_emit
        split: if_splits prod.splits dest!: entryArguments_emitManagedRValueWithCleanup)
  with Cons ty conv e2 show ?thesis by (simp add: accepts_def)
qed

lemma visitType_complete:
  assumes "accepts env t p"
  shows "\<exists>mv s'. visitType env fa loc t (p # rest) s = Inr (mv, rest, s')"
proof -
  let ?arg = "FunctionArgument (length (entryArguments s)) (getLoweredType env t) loc"
  let ?s1 = "emit (CreateFunctionArgument ?arg) s"
  from assms obtain r where "getManagedValue ?arg t p ?s1 = Inr r"
    using getManagedValue_Inr_iff [of ?arg t p ?s1] by (auto simp: accepts_def)
  then obtain mv0 s2 where g: "getManagedValue ?arg t p ?s1 = Inr (mv0, s2)"
    by (cases r) auto
  with assms show ?thesis
    by (auto simp: visitType_def Let_def createFunctionArgument_def accepts_def split: prod.splits)
qed

lemma visit_leaf_sound:
  assumes "visit env fa loc t ps s = visitType env fa loc t ps s"
    and "flattenedLeaves t = [t]"
  shows "\<forall>mv ps' s'. visit env fa loc t ps s = Inr (mv, ps', s') \<longrightarrow>
      (\<exists>qs. ps = qs @ ps' \<and> list_all2 (accepts env) (flattenedLeaves t) qs \<and>
            entryArguments s' =
              entryArguments s @ argumentsFor env loc (length (entryArguments s)) (flattenedLeaves t))"
proof (intro allI impI)
  fix mv ps' s'
  assume "visit env fa loc t ps s = Inr (mv, ps', s')"
  with assms have "visitType env fa loc t ps s = Inr (mv, ps', s')" by simp
  from visitType_sound [OF this] obtain p where p: "ps = p # ps'" "accepts env t p"
    "entryArguments s' = entryArguments s @ argumentsFor env loc (length (entryArguments s)) [t]"
    by blast
  have "ps = [p] @ ps'" using p by simp
  moreover have "list_all2 (accepts env) (flattenedLeaves t) [p]" using p assms by simp
  ultimately show "\<exists>qs. ps = qs @ ps' \<and> list_all2 (accepts env) (flattenedLeaves t) qs \<and>
            entryArguments s' =
              entryArguments s @ argumentsFor env loc (length (entryArguments s)) (flattenedLeaves t)"
    using p assms by (intro exI [of _ "[p]"]) simp
qed

lemma visit_sound_aux:
  "(\<forall>mv ps' s'. visit env fa loc t ps s = Inr (mv, ps', s') \<longrightarrow>
      (\<exists>qs. ps = qs @ ps' \<and> list_all2 (accepts env) (flattenedLeaves t) qs \<and>
            entryArguments s' =
              entryArguments s @ argumentsFor env loc (length (entryArguments s)) (flattenedLeaves t)))"
  "(\<forall>mvs ps' s'. visitElements env fa loc ts ps s = Inr (mvs, ps', s') \<longrightarrow>
      (\<exists>qs. ps = qs @ ps' \<and> list_all2 (accepts env) (flattenedLeavesOfElements ts) qs \<and>
            length mvs = length ts \<and>
            entryArguments s' =
              entryArguments s @
              argumentsFor env loc (length (entryArguments s)) (flattenedLeavesOfElements ts)))"
proof (induction env fa loc t ps s and env fa loc ts ps s rule: visit_visitElements.induct)
  case (1 env fa loc ts ps s)
  show ?case
  proof (intro allI impI)
    fix mv ps' s'
    assume v: "visit env fa loc (TupleType ts) ps s = Inr (mv, ps', s')"
    then obtain es s1 where ve: "visitElements env fa loc ts ps s = Inr (es, ps', s1)"
      and r: "reassembleTuple env (TupleType ts) es s1 = (mv, s')"
      by (auto split: sum.splits prod.splits)
    have e: "entryArguments s' = entryArguments s1"
      using entryArguments_reassembleTuple [OF r] .
    from 1 [rule_format, OF ve] obtain qs where "ps = qs @ ps'"
      "list_all2 (accepts env) (flattenedLeavesOfElements ts) qs"
      "entryArguments s1 = entryArguments s @
              argumentsFor env loc (length (entryArguments s)) (flattenedLeavesOfElements ts)"
      by blast
    with e show "\<exists>qs. ps = qs @ ps' \<and> list_all2 (accepts env) (flattenedLeaves (TupleType ts)) qs \<and>
            entryArguments s' =
              entryArguments s @ argumentsFor env loc (length (entryArguments s)) (flattenedLeaves (TupleType ts))"
      by (intro exI [of _ qs]) simp
  qed
next
  case (3 env fa loc ps s)
  show ?case by simp
next
  case (4 env fa loc t ts ps s)
  show ?case
  proof (intro allI impI)
    fix mvs ps'' s''
    assume v: "visitElements env fa loc (t # ts) ps s = Inr (mvs, ps'', s'')"
    then obtain elt ps' s' es where a: "visit env fa loc t ps s = Inr (elt, ps', s')"
      and b: "visitElements env fa loc ts ps' s' = Inr (es, ps'', s'')" and m: "mvs = elt # es"
      by (auto split: sum.splits prod.splits)
    from "4.IH"(1) [rule_format, OF a] obtain q1 where q1: "ps = q1 @ ps'"
      "list_all2 (accepts env) (flattenedLeaves t) q1"
      "entryArguments s' = entryArguments s @ argumentsFor env loc (length (entryArguments s)) (flattenedLeaves t)"
      by blast
    from "4.IH"(2) [OF a refl refl, rule_format, OF b] obtain q2 where q2: "ps' = q2 @ ps''"
      "list_all2 (accepts env) (flattenedLeavesOfElements ts) q2" "length es = length ts"
      "entryArguments s'' = entryArguments s' @ argumentsFor env loc (length (entryArguments s')) (flattenedLeavesOfElements ts)"
      by blast
    have "ps = (q1 @ q2) @ ps''" using q1 q2 by simp
    moreover have "list_all2 (accepts env) (flattenedLeavesOfElements (t # ts)) (q1 @ q2)"
      using q1 q2 by (simp add: list_all2_appendI)
    moreover have "entryArguments s'' = entryArguments s @
              argumentsFor env loc (length (entryArguments s)) (flattenedLeavesOfElements (t # ts))"
      using q1 q2 by (simp add: argumentsFor_append)
    ultimately show "\<exists>qs. ps = qs @ ps'' \<and> list_all2 (accepts env) (flattenedLeavesOfElements (t # ts)) qs \<and>
            length mvs = length (t # ts) \<and>
            entryArguments s'' =
              entryArguments s @
              argumentsFor env loc (length (entryArguments s)) (flattenedLeavesOfElements (t # ts))"
      using m q2 by (intro exI [of _ "q1 @ q2"]) simp
  qed
qed (rule visit_leaf_sound, simp, simp)+


lemma visit_leaf_complete:
  assumes "visit env fa loc t ps s = visitType env fa loc t ps s"
    and "flattenedLeaves t = [t]"
  shows "\<forall>qs rest. ps = qs @ rest \<longrightarrow> list_all2 (accepts env) (flattenedLeaves t) qs \<longrightarrow>
           (\<exists>mv s'. visit env fa loc t ps s = Inr (mv, rest, s'))"
proof (intro allI impI)
  fix qs rest
  assume ps: "ps = qs @ rest" and a: "list_all2 (accepts env) (flattenedLeaves t) qs"
  from a assms(2) obtain p where p: "qs = [p]" "accepts env t p"
    by (auto simp: list_all2_Cons1)
  from visitType_complete [OF p(2), of fa loc rest s] assms(1) ps p(1)
  show "\<exists>mv s'. visit env fa loc t ps s = Inr (mv, rest, s')" by simp
qed

lemma visit_complete_aux:
  "(\<forall>qs rest. ps = qs @ rest \<longrightarrow> list_all2 (accepts env) (flattenedLeaves t) qs \<longrightarrow>
      (\<exists>mv s'. visit env fa loc t ps s = Inr (mv, rest, s')))"
  "(\<forall>qs rest. ps = qs @ rest \<longrightarrow> list_all2 (accepts env) (flattenedLeavesOfElements ts) qs \<longrightarrow>
      (\<exists>mvs s'. visitElements env fa loc ts ps s = Inr (mvs, rest, s')))"
proof (induction env fa loc t ps s and env fa loc ts ps s rule: visit_visitElements.induct)
  case (1 env fa loc ts ps s)
  show ?case
  proof (intro allI impI)
    fix qs rest
    assume a: "ps = qs @ rest" "list_all2 (accepts env) (flattenedLeaves (TupleType ts)) qs"
    then have "list_all2 (accepts env) (flattenedLeavesOfElements ts) qs" by simp
    from 1 [rule_format, OF a(1) this]
    obtain mvs s1 where "visitElements env fa loc ts ps s = Inr (mvs, rest, s1)"
      by blast
    then show "\<exists>mv s'. visit env fa loc (TupleType ts) ps s = Inr (mv, rest, s')"
      by (simp split: prod.splits)
  qed
next
  case (3 env fa loc ps s)
  show ?case by simp
next
  case (4 env fa loc t ts ps s)
  show ?case
  proof (intro allI impI)
    fix qs rest
    assume ps: "ps = qs @ rest"
      and a: "list_all2 (accepts env) (flattenedLeavesOfElements (t # ts)) qs"
    from a obtain us vs where uv: "qs = us @ vs" "list_all2 (accepts env) (flattenedLeaves t) us"
      "list_all2 (accepts env) (flattenedLeavesOfElements ts) vs"
      by (auto simp: list_all2_append1)
    have "ps = us @ (vs @ rest)" using ps uv by simp
    from "4.IH"(1) [rule_format, OF this uv(2)]
    obtain elt s' where v: "visit env fa loc t ps s = Inr (elt, vs @ rest, s')" by blast
    from "4.IH"(2) [OF v refl refl, rule_format, OF refl uv(3)]
    obtain mvs s'' where "visitElements env fa loc ts (vs @ rest) s' = Inr (mvs, rest, s'')"
      by blast
    with v show "\<exists>mvs s'. visitElements env fa loc (t # ts) ps s = Inr (mvs, rest, s')"
      by simp
  qed
qed (rule visit_leaf_complete, simp, simp)+

lemma visitType_no_underflow:
  "ps \<noteq> [] \<Longrightarrow> visitType env fa loc t ps s \<noteq> Inl NoParameterInfo"
  by (cases ps)
     (auto simp: visitType_def Let_def getManagedValue_def
        split: if_splits prod.splits sum.splits ParameterConvention.splits)

lemma visit_leaf_no_underflow:
  assumes "visit env fa loc t ps s = visitType env fa loc t ps s"
    and "flattenedLeaves t = [t]"
  shows "length (flattenedLeaves t) \<le> length ps \<longrightarrow> visit env fa loc t ps s \<noteq> Inl NoParameterInfo"
proof
  assume "length (flattenedLeaves t) \<le> length ps"
  with assms(2) have "ps \<noteq> []" by auto
  from visitType_no_underflow [OF this, of env fa loc t s] assms(1)
  show "visit env fa loc t ps s \<noteq> Inl NoParameterInfo" by simp
qed

lemma visit_no_underflow_aux:
  "length (flattenedLeaves t) \<le> length ps \<longrightarrow> visit env fa loc t ps s \<noteq> Inl NoParameterInfo"
  "length (flattenedLeavesOfElements ts) \<le> length ps \<longrightarrow>
     visitElements env fa loc ts ps s \<noteq> Inl NoParameterInfo"
proof (induction env fa loc t ps s and env fa loc ts ps s rule: visit_visitElements.induct)
  case (1 env fa loc ts ps s)
  then show ?case by (auto split: sum.splits prod.splits)
next
  case (3 env fa loc ps s)
  show ?case by simp
next
  case (4 env fa loc t ts ps s)
  show ?case
  proof
    assume len: "length (flattenedLeavesOfElements (t # ts)) \<le> length ps"
    show "visitElements env fa loc (t # ts) ps s \<noteq> Inl NoParameterInfo"
    proof (cases "visit env fa loc t ps s")
      case (Inl e)
      with "4.IH"(1) len show ?thesis by auto
    next
      case (Inr r)
      obtain elt ps' s' where r: "r = (elt, ps', s')" by (cases r)
      from visit_sound_aux(1) [rule_format, of env fa loc t ps s elt ps' s'] Inr r
      obtain q1 where "ps = q1 @ ps'" "list_all2 (accepts env) (flattenedLeaves t) q1"
        by blast
      then have "length (flattenedLeavesOfElements ts) \<le> length ps'"
        using len by (auto dest: list_all2_lengthD)
      with "4.IH"(2) [of "(elt, ps', s')" elt "(ps', s')" ps' s'] Inr r show ?thesis
        by (auto split: sum.splits)
    qed
  qed
qed (rule visit_leaf_no_underflow, simp, simp)+

text \<open>
  C2. Let the parameter-convention sequence be as long as the flattened leaf list of the
  type. Then the visitor never finds the queue empty; whenever it returns, nothing is
  left of the queue, the i-th descriptor was consumed for the i-th leaf in depth-first
  left-to-right order (it went through the type assertion and the convention switch
  of that leaf) and exactly one entry-block argument per leaf was created, in that
  order; and it does return when every descriptor passes the assertion and the switch
  of its leaf.
\<close>

theorem visit_leaf_convention_parity:
  assumes "length ps = length (flattenedLeaves t)"
  shows "visit env functionArgs loc t ps s \<noteq> Inl NoParameterInfo
    \<and> (\<forall>mv ps' s'. visit env functionArgs loc t ps s = Inr (mv, ps', s') \<longrightarrow>
          ps' = [] \<and> list_all2 (accepts env) (flattenedLeaves t) ps \<and>
          entryArguments s' =
            entryArguments s @
            argumentsFor env loc (length (entryArguments s)) (flattenedLeaves t))
    \<and> (list_all2 (accepts env) (flattenedLeaves t) ps \<longrightarrow>
          (\<exists>mv s'. visit env functionArgs loc t ps s = Inr (mv, [], s')))"
proof (intro conjI allI impI)
  show "visit env functionArgs loc t ps s \<noteq> Inl NoParameterInfo"
    using visit_no_underflow_aux(1) [of t ps env functionArgs loc s] assms by simp
next
  fix mv ps' s'
  assume v: "visit env functionArgs loc t ps s = Inr (mv, ps', s')"
  from visit_sound_aux(1) [rule_format, OF v]
  obtain qs where q: "ps = qs @ ps'" "list_all2 (accepts env) (flattenedLeaves t) qs"
    "entryArguments s' = entryArguments s @
       argumentsFor env loc (length (entryArguments s)) (flattenedLeaves t)"
    by blast
  from q(1,2) assms have e: "ps' = []" by (auto dest: list_all2_lengthD)
  show "ps' = []" by (rule e)
  show "list_all2 (accepts env) (flattenedLeaves t) ps" using q e by simp
  show "entryArguments s' = entryArguments s @
       argumentsFor env loc (length (entryArguments s)) (flattenedLeaves t)" by (rule q(3))
next
  assume "list_all2 (accepts env) (flattenedLeaves t) ps"
  with visit_complete_aux(1) [rule_format, of ps ps "[]" env t functionArgs loc s]
  show "\<exists>mv s'. visit env functionArgs loc t ps s = Inr (mv, [], s')" by simp
qed


theorem visit_leaf_convention_parity_witness:
  "visit sampleEnv True None
     (TupleType [NominalType ''Int'', TupleType [NominalType ''A'', NominalType ''B'']])
     [owned (NominalType ''Int''), guaranteed (NominalType ''A''), owned (NominalType ''B'')]
     emptyState \<noteq> Inl NoParameterInfo
   \<and> (\<exists>mv s'. visit sampleEnv True None
     (TupleType [NominalType ''Int'', TupleType [NominalType ''A'', NominalType ''B'']])
     [owned (NominalType ''Int''), guaranteed (NominalType ''A''), owned (NominalType ''B'')]
     emptyState = Inr (mv, [], s'))"
  using visit_leaf_convention_parity
    [of "[owned (NominalType ''Int''), guaranteed (NominalType ''A''), owned (NominalType ''B'')]"
        "TupleType [NominalType ''Int'', TupleType [NominalType ''A'', NominalType ''B'']]"
        sampleEnv True None emptyState]
  by (simp add: accepts_def sampleEnv_def owned_def guaranteed_def)


subsection \<open>Reassembly of a destructured tuple\<close>

lemma isActive_emit [simp]: "isActive (emit e s) k = isActive s k"
  by (simp add: isActive_def emit_def)

lemma Cleanups_emit [simp]: "Cleanups (emit e s) = Cleanups s"
  by (simp add: emit_def)

lemma emitted_emit [simp]: "emitted (emit e s) = emitted s @ [e]"
  by (simp add: emit_def)

lemma isActive_setCleanupState_Forwarded:
  "isActive (setCleanupState h Forwarded s) k = (isActive s k \<and> k \<noteq> h)"
  by (auto simp: isActive_def setCleanupState_def nth_list_update)

lemma length_Cleanups_setCleanupState [simp]:
  "length (Cleanups (setCleanupState h st s)) = length (Cleanups s)"
  by (simp add: setCleanupState_def)

lemma emitted_setCleanupState [simp]:
  "emitted (setCleanupState h st s) = emitted s"
  by (simp add: setCleanupState_def)

lemma forward_effect:
  assumes "forward e s = (v, s')"
  shows "v = getValue e" "emitted s' = emitted s"
    "length (Cleanups s') = length (Cleanups s)"
    "isActive s' k = (isActive s k \<and> k \<notin> set (elementCleanups [e]))"
  using assms
  by (auto simp: forward_def isActive_setCleanupState_Forwarded split: option.splits)

lemma emitManagedRValueWithCleanup_effect:
  assumes "emitManagedRValueWithCleanup v s = (mv, s')"
  shows "mv = \<lparr>getValue = v, isLValue = False, cleanup = Some (length (Cleanups s))\<rparr>"
    "emitted s' = emitted s"
    "Cleanups s' = Cleanups s @ [(DestroyValueCleanup v, Active)]"
  using assms
  by (auto simp: emitManagedRValueWithCleanup_def enterDestroyCleanup_def pushCleanup_def)

lemma isActive_push:
  "Cleanups s' = Cleanups s @ [(c, Active)] \<Longrightarrow>
   isActive s' k = (isActive s k \<or> k = length (Cleanups s))"
  by (auto simp: isActive_def nth_append)

lemma copy_then_forward_effect:
  assumes "copyUnmanaged e s = (c, s0)" and "forward c s0 = (v, s')"
  shows "v = CopyValueInst (getValue e)"
    "emitted s' = emitted s @ [Emit (CopyValueInst (getValue e))]"
    "length (Cleanups s') = Suc (length (Cleanups s))"
    "isActive s' k = isActive s k"
proof -
  let ?v = "CopyValueInst (getValue e)"
  from assms(1) have m: "emitManagedRValueWithCleanup ?v (emit (Emit ?v) s) = (c, s0)"
    by (simp add: copyUnmanaged_def Let_def)
  note e = emitManagedRValueWithCleanup_effect [OF m]
  from e(1) assms(2) have s': "s' = setCleanupState (length (Cleanups s)) Forwarded s0"
    and v: "v = ?v"
    by (auto simp: forward_def)
  show "v = ?v" by (rule v)
  show "emitted s' = emitted s @ [Emit ?v]" using s' e(2) by simp
  show "length (Cleanups s') = Suc (length (Cleanups s))" using s' e(3) by simp
  have "isActive s0 k = (isActive s k \<or> k = length (Cleanups s))"
    using isActive_push [of s0 "emit (Emit ?v) s"] e(3) by simp
  moreover have "\<not> isActive s (length (Cleanups s))" by (simp add: isActive_def)
  ultimately show "isActive s' k = isActive s k"
    unfolding s' isActive_setCleanupState_Forwarded by blast
qed

lemma moveOrCopyElements_effect:
  "moveOrCopyElements es s = (vs, s') \<Longrightarrow>
     vs = map movedValue es \<and> emitted s' = emitted s @ copiesEmitted es \<and>
     length (Cleanups s) \<le> length (Cleanups s') \<and>
     (\<forall>k. isActive s' k = (isActive s k \<and> k \<notin> set (elementCleanups es)))"
proof (induction es arbitrary: s vs s')
  case Nil
  then show ?case by simp
next
  case (Cons e es)
  show ?case
  proof (cases "hasCleanup e")
    case True
    obtain v s1 where f: "forward e s = (v, s1)" by (cases "forward e s")
    obtain vs' s2 where m: "moveOrCopyElements es s1 = (vs', s2)"
      by (cases "moveOrCopyElements es s1")
    from Cons.prems True f m have r: "vs = v # vs'" "s' = s2" by auto
    note fe = forward_effect [OF f]
    note ih = Cons.IH [OF m]
    show ?thesis
      using r fe(1,2,3) ih True fe(4)
      by (auto simp: movedValue_def split: option.splits)
  next
    case False
    obtain c s0 where c: "copyUnmanaged e s = (c, s0)" by (cases "copyUnmanaged e s")
    obtain v s1 where f: "forward c s0 = (v, s1)" by (cases "forward c s0")
    obtain vs' s2 where m: "moveOrCopyElements es s1 = (vs', s2)"
      by (cases "moveOrCopyElements es s1")
    from Cons.prems False c f m have r: "vs = v # vs'" "s' = s2" by auto
    note ce = copy_then_forward_effect [OF c f]
    note ih = Cons.IH [OF m]
    from False have n: "cleanup e = None" by (simp add: hasCleanup_def)
    show ?thesis
      using r ce(1,2,3) ih False n ce(4)
      by (auto simp: movedValue_def)
  qed
qed

lemma forwardInto_effect:
  "emitted (forwardInto e a s) = emitted s @ [Store (getValue e) a]"
  "length (Cleanups (forwardInto e a s)) = length (Cleanups s)"
  "isActive (forwardInto e a s) k = (isActive s k \<and> k \<notin> set (elementCleanups [e]))"
  by (auto simp: forwardInto_def forward_def isActive_setCleanupState_Forwarded
      split: option.splits)

lemma copyInto_effect:
  "emitted (copyInto e a s) = emitted s @ [CopyAddr (getValue e) a]"
  "Cleanups (copyInto e a s) = Cleanups s"
  "isActive (copyInto e a s) k = isActive s k"
  by (auto simp: copyInto_def)

lemma moveOrCopyIntoBuffer_step:
  "moveOrCopyIntoBuffer b i (e # es) s =
     moveOrCopyIntoBuffer b (Suc i) es
       (let a = TupleElementAddrInst b i (getAddressType (getType (getValue e)))
        in if hasCleanup e then forwardInto e a (emit (Emit a) s)
           else copyInto e a (emit (Emit a) s))"
  by (simp add: Let_def)

lemma emitted_moveOrCopyIntoBuffer:
  "emitted (moveOrCopyIntoBuffer b i es s) = emitted s @ bufferWrites b i es"
proof (induction es arbitrary: s i)
  case Nil
  show ?case by simp
next
  case (Cons e es)
  show ?case
    unfolding moveOrCopyIntoBuffer_step Cons.IH
    by (simp add: Let_def forwardInto_effect copyInto_effect)
qed

lemma length_Cleanups_moveOrCopyIntoBuffer:
  "length (Cleanups (moveOrCopyIntoBuffer b i es s)) = length (Cleanups s)"
proof (induction es arbitrary: s i)
  case Nil
  show ?case by simp
next
  case (Cons e es)
  show ?case
    unfolding moveOrCopyIntoBuffer_step Cons.IH
    by (simp add: Let_def forwardInto_effect copyInto_effect)
qed

lemma isActive_moveOrCopyIntoBuffer:
  "isActive (moveOrCopyIntoBuffer b i es s) k =
     (isActive s k \<and> k \<notin> set (elementCleanups es))"
proof (induction es arbitrary: s i)
  case Nil
  show ?case by simp
next
  case (Cons e es)
  show ?case
  proof (cases "hasCleanup e")
    case True
    then show ?thesis
      unfolding moveOrCopyIntoBuffer_step Cons.IH
      by (auto simp: Let_def forwardInto_effect split: option.splits)
  next
    case False
    then have "cleanup e = None" by (simp add: hasCleanup_def)
    with False show ?thesis
      unfolding moveOrCopyIntoBuffer_step Cons.IH
      by (simp add: Let_def copyInto_effect)
  qed
qed


lemma reassembleTuple_guaranteed:
  assumes "isLoadable env t" "list_all (\<lambda>elt. \<not> hasCleanup elt) elements"
  shows "reassembleTuple env t elements s =
           (forUnmanaged (TupleInst (getLoweredType env t) (map getValue elements)),
            emit (Emit (TupleInst (getLoweredType env t) (map getValue elements))) s)"
  using assms by (simp add: reassembleTuple_def Let_def)

lemma reassembleTuple_owned_tuple:
  assumes r: "reassembleTuple env t elements s = (mv, s')"
    and g: "\<not> (isLoadable env t \<and> list_all (\<lambda>elt. \<not> hasCleanup elt) elements)"
    and l: "isLoadable env t \<or> \<not> useLoweredAddresses env"
  shows "mv = \<lparr>getValue = TupleInst (getLoweredType env t) (map movedValue elements),
               isLValue = False, cleanup = Some (length (Cleanups s') - 1)\<rparr>"
    "emitted s' = emitted s @ copiesEmitted elements @ [Emit (getValue mv)]"
    "length (Cleanups s) < length (Cleanups s')"
    "Cleanups s' ! (length (Cleanups s') - 1) = (DestroyValueCleanup (getValue mv), Active)"
    "isActive s' k = (k = length (Cleanups s') - 1 \<or>
                       isActive s k \<and> k \<notin> set (elementCleanups elements))"
proof -
  obtain vs s1 where m: "moveOrCopyElements elements s = (vs, s1)"
    by (cases "moveOrCopyElements elements s")
  note me = moveOrCopyElements_effect [OF m]
  let ?tv = "TupleInst (getLoweredType env t) vs"
  from r g l m
  have e: "emitManagedRValueWithCleanup ?tv (emit (Emit ?tv) s1) = (mv, s')"
    by (simp add: reassembleTuple_def Let_def)
  note ee = emitManagedRValueWithCleanup_effect [OF e]
  have len: "length (Cleanups s') - 1 = length (Cleanups s1)" using ee(3) by simp
  show "mv = \<lparr>getValue = TupleInst (getLoweredType env t) (map movedValue elements),
               isLValue = False, cleanup = Some (length (Cleanups s') - 1)\<rparr>"
    using ee(1) me len by simp
  show "emitted s' = emitted s @ copiesEmitted elements @ [Emit (getValue mv)]"
    using ee(1,2) me by simp
  show "length (Cleanups s) < length (Cleanups s')" using ee(3) me by simp
  show "Cleanups s' ! (length (Cleanups s') - 1) = (DestroyValueCleanup (getValue mv), Active)"
    using ee(1,3) by simp
  have "isActive s' k = (isActive s1 k \<or> k = length (Cleanups s1))"
    using isActive_push [of s' "emit (Emit ?tv) s1"] ee(3) by simp
  then show "isActive s' k = (k = length (Cleanups s') - 1 \<or>
                       isActive s k \<and> k \<notin> set (elementCleanups elements))"
    using me len by auto
qed

lemma reassembleTuple_owned_buffer:
  assumes r: "reassembleTuple env t elements s = (mv, s')"
    and l: "\<not> isLoadable env t" "useLoweredAddresses env"
  shows "mv = \<lparr>getValue = AllocStackInst (length (emitted s)) (getLoweredType env t),
               isLValue = False, cleanup = Some (length (Cleanups s') - 1)\<rparr>"
    "emitted s' = emitted s @ [Emit (getValue mv)] @ bufferWrites (getValue mv) 0 elements"
    "length (Cleanups s) < length (Cleanups s')"
    "Cleanups s' ! (length (Cleanups s') - 1) = (DestroyValueCleanup (getValue mv), Active)"
    "isActive s' k = (k = length (Cleanups s') - 1 \<or>
                       isActive s k \<and> k \<notin> set (elementCleanups elements))"
proof -
  let ?b = "AllocStackInst (length (emitted s)) (getLoweredType env t)"
  let ?s1 = "moveOrCopyIntoBuffer ?b 0 elements (emit (Emit ?b) s)"
  from r l have e: "emitManagedRValueWithCleanup ?b ?s1 = (mv, s')"
    by (simp add: reassembleTuple_def Let_def emitTemporaryAllocation_def)
  note ee = emitManagedRValueWithCleanup_effect [OF e]
  have l1: "length (Cleanups ?s1) = length (Cleanups s)"
    by (simp add: length_Cleanups_moveOrCopyIntoBuffer)
  have len: "length (Cleanups s') - 1 = length (Cleanups s)" using ee(3) l1 by simp
  show "mv = \<lparr>getValue = AllocStackInst (length (emitted s)) (getLoweredType env t),
               isLValue = False, cleanup = Some (length (Cleanups s') - 1)\<rparr>"
    using ee(1) l1 len by simp
  show "emitted s' = emitted s @ [Emit (getValue mv)] @ bufferWrites (getValue mv) 0 elements"
    using ee(1,2) by (simp add: emitted_moveOrCopyIntoBuffer)
  show "length (Cleanups s) < length (Cleanups s')" using ee(3) l1 by simp
  show "Cleanups s' ! (length (Cleanups s') - 1) = (DestroyValueCleanup (getValue mv), Active)"
    using ee(1,3) by simp
  have "isActive s' k = (isActive ?s1 k \<or> k = length (Cleanups ?s1))"
    using isActive_push [of s' ?s1] ee(3) by simp
  then show "isActive s' k = (k = length (Cleanups s') - 1 \<or>
                       isActive s k \<and> k \<notin> set (elementCleanups elements))"
    using l1 len by (auto simp: isActive_moveOrCopyIntoBuffer)
qed

text \<open>
  C3 (as amended). When a tuple is reassembled from its elements: if its lowering is
  loadable and no element carries a cleanup, the result is one unmanaged tuple of the
  elements' values and the cleanup stack is unchanged. Otherwise the result carries one
  new release cleanup, the last registered, for the aggregate; the pending cleanups
  afterwards are that one and those pending before that no element carries, so no
  element keeps its own; each element is forwarded if it had a cleanup and copied if
  not; the aggregate is a tuple value when the lowering is loadable or the module does
  not use lowered addresses, and a fresh stack buffer, written element by element at the
  element's index, when the lowering is address-only and lowered addresses are in use.
\<close>

theorem reassembleTuple_ownership:
  assumes "reassembleTuple env t elements s = (mv, s')"
  shows
    "(isLoadable env t \<and> list_all (\<lambda>elt. \<not> hasCleanup elt) elements \<longrightarrow>
        mv = forUnmanaged (TupleInst (getLoweredType env t) (map getValue elements)) \<and>
        emitted s' = emitted s @ [Emit (getValue mv)] \<and>
        Cleanups s' = Cleanups s)
     \<and> (\<not> (isLoadable env t \<and> list_all (\<lambda>elt. \<not> hasCleanup elt) elements) \<longrightarrow>
        cleanup mv = Some (length (Cleanups s') - 1) \<and>
        length (Cleanups s) < length (Cleanups s') \<and>
        Cleanups s' ! (length (Cleanups s') - 1) = (DestroyValueCleanup (getValue mv), Active) \<and>
        (\<forall>k. isActive s' k =
               (k = length (Cleanups s') - 1 \<or>
                isActive s k \<and> k \<notin> set (elementCleanups elements))) \<and>
        (isLoadable env t \<or> \<not> useLoweredAddresses env \<longrightarrow>
           getValue mv = TupleInst (getLoweredType env t) (map movedValue elements) \<and>
           emitted s' = emitted s @ copiesEmitted elements @ [Emit (getValue mv)]) \<and>
        (\<not> isLoadable env t \<and> useLoweredAddresses env \<longrightarrow>
           getValue mv = AllocStackInst (length (emitted s)) (getLoweredType env t) \<and>
           emitted s' =
             emitted s @ [Emit (getValue mv)] @ bufferWrites (getValue mv) 0 elements))"
proof (cases "isLoadable env t \<and> list_all (\<lambda>elt. \<not> hasCleanup elt) elements")
  case True
  with assms reassembleTuple_guaranteed [of env t elements s] show ?thesis
    by (auto simp: forUnmanaged_def)
next
  case g: False
  show ?thesis
  proof (cases "isLoadable env t \<or> \<not> useLoweredAddresses env")
    case True
    note o = reassembleTuple_owned_tuple [OF assms g True]
    from o(1) have "cleanup mv = Some (length (Cleanups s') - 1)"
      "getValue mv = TupleInst (getLoweredType env t) (map movedValue elements)"
      by simp_all
    with g True o(2,3,4,5) show ?thesis by blast
  next
    case False
    then have l: "\<not> isLoadable env t" "useLoweredAddresses env" by simp_all
    note o = reassembleTuple_owned_buffer [OF assms l]
    from o(1) have "cleanup mv = Some (length (Cleanups s') - 1)"
      "getValue mv = AllocStackInst (length (emitted s)) (getLoweredType env t)"
      by simp_all
    with g l o(2,3,4,5) show ?thesis by blast
  qed
qed

text \<open>
  C3 as stated fails for an address-only tuple in a module that does not use lowered
  addresses: the aggregate is a tuple value, not a stack buffer.
\<close>

theorem reassembleTuple_address_only_counterexample:
  "\<not> isLoadable opaqueEnv (TupleType [NominalType ''A''])
   \<and> reassembleTuple opaqueEnv (TupleType [NominalType ''A''])
        [forUnmanaged (FunctionArgument 0 (SILType (NominalType ''A'') False) None)] emptyState
     = (\<lparr>getValue = TupleInst (SILType (TupleType [NominalType ''A'']) False)
            [CopyValueInst (FunctionArgument 0 (SILType (NominalType ''A'') False) None)],
          isLValue = False, cleanup = Some 1\<rparr>,
        \<lparr>emitted =
           [Emit (CopyValueInst (FunctionArgument 0 (SILType (NominalType ''A'') False) None)),
            Emit (TupleInst (SILType (TupleType [NominalType ''A'']) False)
              [CopyValueInst (FunctionArgument 0 (SILType (NominalType ''A'') False) None)])],
         Cleanups =
           [(DestroyValueCleanup
               (CopyValueInst (FunctionArgument 0 (SILType (NominalType ''A'') False) None)),
             Forwarded),
            (DestroyValueCleanup
               (TupleInst (SILType (TupleType [NominalType ''A'']) False)
                 [CopyValueInst (FunctionArgument 0 (SILType (NominalType ''A'') False) None)]),
             Active)],
         VarLocs = []\<rparr>)"
  by (simp add: opaqueEnv_def sampleEnv_def emptyState_def reassembleTuple_def forUnmanaged_def
      hasCleanup_def copyUnmanaged_def emitManagedRValueWithCleanup_def enterDestroyCleanup_def
      pushCleanup_def emit_def forward_def setCleanupState_def Let_def)

theorem reassembleTuple_ownership_witness:
  "getValue (fst (reassembleTuple addressOnlyEnv (TupleType [NominalType ''A''])
        [forUnmanaged (FunctionArgument 0 (SILType (NominalType ''A'') False) None)] emptyState))
     = AllocStackInst 0 (SILType (TupleType [NominalType ''A'']) False)
   \<and> cleanup (fst (reassembleTuple addressOnlyEnv (TupleType [NominalType ''A''])
        [forUnmanaged (FunctionArgument 0 (SILType (NominalType ''A'') False) None)] emptyState))
     = Some (length (Cleanups (snd (reassembleTuple addressOnlyEnv (TupleType [NominalType ''A''])
        [forUnmanaged (FunctionArgument 0 (SILType (NominalType ''A'') False) None)] emptyState))) - 1)"
  using reassembleTuple_ownership
    [of addressOnlyEnv "TupleType [NominalType ''A'']"
        "[forUnmanaged (FunctionArgument 0 (SILType (NominalType ''A'') False) None)]"
        emptyState
        "fst (reassembleTuple addressOnlyEnv (TupleType [NominalType ''A''])
          [forUnmanaged (FunctionArgument 0 (SILType (NominalType ''A'') False) None)] emptyState)"
        "snd (reassembleTuple addressOnlyEnv (TupleType [NominalType ''A''])
          [forUnmanaged (FunctionArgument 0 (SILType (NominalType ''A'') False) None)] emptyState)"]
  by (simp add: addressOnlyEnv_def sampleEnv_def emptyState_def)



subsection \<open>Captures\<close>

lemma emitCaptures_append_dynamicSelf:
  assumes "list_all (\<lambda>c. \<not> isDynamicSelfMetadata c) before" "isDynamicSelfMetadata c"
  shows "emitCaptures env dynamicSelfType (before @ c # after) argNo s
         = emitCaptures env dynamicSelfType (before @ [c]) argNo s"
  using assms by (induction before arbitrary: argNo s) simp_all

lemma emitCaptures_until_dynamicSelf:
  assumes "list_all (\<lambda>c. \<not> isDynamicSelfMetadata c) before" "isDynamicSelfMetadata c"
  shows "emitCaptures env dynamicSelfType (before @ c # after) argNo s
         = snd (createFunctionArgument (getLoweredType env (MetatypeType dynamicSelfType)) None
                  (foldl (\<lambda>s (i, b). emitCaptureArguments env b i s) s
                     (enumerate (Suc argNo) before)))"
  using assms by (induction before arbitrary: argNo s) simp_all

text \<open>
  C7. When a capture record is flagged as the dynamic-self metadata (and none before it
  is), it is bound specially: once the records before it have been lowered, with
  successive ordinals, one entry-block argument of the lowered metatype of the dynamic
  self type is created for it, without declaration, and nothing is bound or registered
  for it. The capture loop ends with it: what is emitted, bound and registered does not
  depend on the records after it, neither in the loop nor in the closure's
  \<open>emitProlog\<close>.
\<close>

theorem emitCaptures_stops_at_dynamicSelf:
  assumes "list_all (\<lambda>c. \<not> isDynamicSelfMetadata c) before" "isDynamicSelfMetadata c"
    and "s1 = foldl (\<lambda>s (i, b). emitCaptureArguments env b i s) s (enumerate (Suc argNo) before)"
  shows "emitCaptures env dynamicSelfType (before @ c # after) argNo s
         = s1\<lparr>emitted := emitted s1 @
               [CreateFunctionArgument
                  (FunctionArgument (length (entryArguments s1))
                     (getLoweredType env (MetatypeType dynamicSelfType)) None)]\<rparr>
       \<and> emitCaptures env dynamicSelfType (before @ c # after) argNo s
         = emitCaptures env dynamicSelfType (before @ [c]) argNo s
       \<and> emitPrologClosure env (before @ c # after) dynamicSelfType paramPatterns resultType throws s
         = emitPrologClosure env (before @ [c]) dynamicSelfType paramPatterns resultType throws s"
proof -
  have a: "emitCaptures env dynamicSelfType (before @ c # after) argNo s
         = s1\<lparr>emitted := emitted s1 @
               [CreateFunctionArgument
                  (FunctionArgument (length (entryArguments s1))
                     (getLoweredType env (MetatypeType dynamicSelfType)) None)]\<rparr>"
    unfolding emitCaptures_until_dynamicSelf [OF assms(1,2)] assms(3)
    by (simp add: createFunctionArgument_def Let_def emit_def)
  have b: "emitCaptures env dynamicSelfType (before @ c # after) argNo' s'
         = emitCaptures env dynamicSelfType (before @ [c]) argNo' s'" for argNo' s'
    by (rule emitCaptures_append_dynamicSelf [OF assms(1,2)])
  have c: "emitPrologClosure env (before @ c # after) dynamicSelfType paramPatterns resultType
             throws s
         = emitPrologClosure env (before @ [c]) dynamicSelfType paramPatterns resultType throws s"
    by (simp add: emitPrologClosure_def b split: sum.splits)
  from a b [of argNo s] c show ?thesis by (intro conjI)
qed


text \<open>
  C10. When the dynamic-self metadata case is taken, one entry-block argument of the
  lowered metatype of the dynamic self type is created, and that is all: the
  variable-location table and the cleanup stack are unchanged.
\<close>

theorem emitCaptures_dynamicSelf_frame:
  assumes "isDynamicSelfMetadata c"
  shows "emitCaptures env dynamicSelfType (c # rest) argNo s
         = s\<lparr>emitted := emitted s @
               [CreateFunctionArgument
                  (FunctionArgument (length (entryArguments s))
                     (getLoweredType env (MetatypeType dynamicSelfType)) None)]\<rparr>
     \<and> VarLocs (emitCaptures env dynamicSelfType (c # rest) argNo s) = VarLocs s
     \<and> Cleanups (emitCaptures env dynamicSelfType (c # rest) argNo s) = Cleanups s"
  using assms by (simp add: createFunctionArgument_def Let_def emit_def)



lemma capture_loop_example:
  "emitCaptures sampleEnv (NominalType ''C'')
     ([captureOf (letDecl ''x'' (NominalType ''A''))]
      @ dynamicSelfCapture (letDecl ''self'' (NominalType ''C''))
      # [captureOf (letDecl ''y'' (NominalType ''B''))]) 0 emptyState
   = \<lparr>emitted =
        [CreateFunctionArgument
           (FunctionArgument 0 (SILType (NominalType ''A'') False)
              (Some (letDecl ''x'' (NominalType ''A'')))),
         DebugValue
           (FunctionArgument 0 (SILType (NominalType ''A'') False)
              (Some (letDecl ''x'' (NominalType ''A'')))) [] True 1,
         CreateFunctionArgument
           (FunctionArgument 1 (SILType (MetatypeType (NominalType ''C'')) False) None)],
      Cleanups =
        [(DestroyValueCleanup
            (FunctionArgument 0 (SILType (NominalType ''A'') False)
               (Some (letDecl ''x'' (NominalType ''A'')))), Active)],
      VarLocs =
        [(letDecl ''x'' (NominalType ''A''),
          VarLoc (FunctionArgument 0 (SILType (NominalType ''A'') False)
              (Some (letDecl ''x'' (NominalType ''A'')))) None)]\<rparr>"
  by code_simp

theorem emitCaptures_stops_at_dynamicSelf_witness:
  "emitCaptures sampleEnv (NominalType ''C'')
     ([captureOf (letDecl ''x'' (NominalType ''A''))]
      @ dynamicSelfCapture (letDecl ''self'' (NominalType ''C''))
      # [captureOf (letDecl ''y'' (NominalType ''B''))]) 0 emptyState
   = (foldl (\<lambda>s (i, b). emitCaptureArguments sampleEnv b i s) emptyState
        (enumerate (Suc 0) [captureOf (letDecl ''x'' (NominalType ''A''))]))
     \<lparr>emitted :=
        emitted (foldl (\<lambda>s (i, b). emitCaptureArguments sampleEnv b i s) emptyState
                   (enumerate (Suc 0) [captureOf (letDecl ''x'' (NominalType ''A''))])) @
        [CreateFunctionArgument
           (FunctionArgument
              (length (entryArguments
                 (foldl (\<lambda>s (i, b). emitCaptureArguments sampleEnv b i s) emptyState
                    (enumerate (Suc 0) [captureOf (letDecl ''x'' (NominalType ''A''))]))))
              (getLoweredType sampleEnv (MetatypeType (NominalType ''C''))) None)]\<rparr>
   \<and> emitCaptures sampleEnv (NominalType ''C'')
     ([captureOf (letDecl ''x'' (NominalType ''A''))]
      @ dynamicSelfCapture (letDecl ''self'' (NominalType ''C''))
      # [captureOf (letDecl ''y'' (NominalType ''B''))]) 0 emptyState
   = \<lparr>emitted =
        [CreateFunctionArgument
           (FunctionArgument 0 (SILType (NominalType ''A'') False)
              (Some (letDecl ''x'' (NominalType ''A'')))),
         DebugValue
           (FunctionArgument 0 (SILType (NominalType ''A'') False)
              (Some (letDecl ''x'' (NominalType ''A'')))) [] True 1,
         CreateFunctionArgument
           (FunctionArgument 1 (SILType (MetatypeType (NominalType ''C'')) False) None)],
      Cleanups =
        [(DestroyValueCleanup
            (FunctionArgument 0 (SILType (NominalType ''A'') False)
               (Some (letDecl ''x'' (NominalType ''A'')))), Active)],
      VarLocs =
        [(letDecl ''x'' (NominalType ''A''),
          VarLoc (FunctionArgument 0 (SILType (NominalType ''A'') False)
              (Some (letDecl ''x'' (NominalType ''A'')))) None)]\<rparr>"
proof -
  have d: "list_all (\<lambda>c. \<not> isDynamicSelfMetadata c) [captureOf (letDecl ''x'' (NominalType ''A''))]"
    "isDynamicSelfMetadata (dynamicSelfCapture (letDecl ''self'' (NominalType ''C'')))"
    by (simp_all add: captureOf_def dynamicSelfCapture_def)
  note t = emitCaptures_stops_at_dynamicSelf [OF d refl, of sampleEnv "NominalType ''C''"
         "[captureOf (letDecl ''y'' (NominalType ''B''))]" 0 emptyState]
  show ?thesis by (rule conjI [OF conjunct1 [OF t] capture_loop_example])
qed

theorem emitCaptures_dynamicSelf_frame_witness:
  "VarLocs (emitCaptures sampleEnv (NominalType ''C'')
      (dynamicSelfCapture (letDecl ''self'' (NominalType ''C''))
       # [captureOf (letDecl ''y'' (NominalType ''B''))]) 0 emptyState) = []
   \<and> Cleanups (emitCaptures sampleEnv (NominalType ''C'')
      (dynamicSelfCapture (letDecl ''self'' (NominalType ''C''))
       # [captureOf (letDecl ''y'' (NominalType ''B''))]) 0 emptyState) = []"
  using emitCaptures_dynamicSelf_frame
    [of "dynamicSelfCapture (letDecl ''self'' (NominalType ''C''))"
        sampleEnv "NominalType ''C''" "[captureOf (letDecl ''y'' (NominalType ''B''))]" 0 emptyState]
  by (simp add: dynamicSelfCapture_def emptyState_def)

text \<open>
  C6 (as amended). A by-value capture arrives as a new entry-block argument. If the
  captured variable is settable, a local cell is allocated, the incoming argument - in
  guaranteed-context mode a fresh copy of it - is stored into the cell, and the variable
  is bound to the cell's address; otherwise the variable is bound to the incoming value.
  A release cleanup for the bound value is registered exactly when the type is not
  trivial and either guaranteed-context mode is off or the variable is settable;
  otherwise nothing is registered.
\<close>

theorem emitCaptureArguments_Constant:
  assumes "getDeclCaptureKind env capture = CKConstant"
    and "VD = getDecl capture"
    and "type = closure_mapTypeIntoContext env (interfaceType VD)"
    and "arg = FunctionArgument (length (entryArguments s)) (getLoweredType env type) (Some VD)"
    and "cell = AllocStackInst (Suc (length (emitted s))) (getLoweredType env type)"
    and "stored = (if EnableGuaranteedClosureContexts env then CopyValueInst arg else arg)"
    and "bound = (if isSettable VD then cell else arg)"
  shows "emitted (emitCaptureArguments env capture argNo s) =
           emitted s @ [CreateFunctionArgument arg] @
           (if isSettable VD
            then [Emit cell] @
                 (if EnableGuaranteedClosureContexts env then [Emit (CopyValueInst arg)] else []) @
                 [Store stored cell, SetArgNo cell argNo]
            else [DebugValue arg [] True argNo])
       \<and> VarLocs (emitCaptureArguments env capture argNo s) =
           (VD, VarLoc bound None) # filter (\<lambda>e. fst e \<noteq> VD) (VarLocs s)
       \<and> Cleanups (emitCaptureArguments env capture argNo s) =
           Cleanups s @
           (if (\<not> EnableGuaranteedClosureContexts env \<or> isSettable VD) \<and> \<not> isTrivial env type
            then [(DestroyValueCleanup bound, Active)] else [])"
  using assms
  by (simp add: emitCaptureArguments_def Let_def createFunctionArgument_def
      emitTemporaryAllocation_def emit_def setVarLoc_def enterDestroyCleanup_def
      pushCleanup_def entryArguments_def)

theorem emitCaptureArguments_Constant_witness:
  "Cleanups (emitCaptureArguments sampleEnv (captureOf (letDecl ''x'' (NominalType ''A''))) 1
      emptyState)
   = [(DestroyValueCleanup
         (FunctionArgument 0 (SILType (NominalType ''A'') False)
            (Some (letDecl ''x'' (NominalType ''A'')))), Active)]"
  using emitCaptureArguments_Constant
    [of sampleEnv "captureOf (letDecl ''x'' (NominalType ''A''))"
        "letDecl ''x'' (NominalType ''A'')" "NominalType ''A''"
        "FunctionArgument 0 (SILType (NominalType ''A'') False)
            (Some (letDecl ''x'' (NominalType ''A'')))" emptyState
        "AllocStackInst 1 (SILType (NominalType ''A'') False)"
        "FunctionArgument 0 (SILType (NominalType ''A'') False)
            (Some (letDecl ''x'' (NominalType ''A'')))"
        "FunctionArgument 0 (SILType (NominalType ''A'') False)
            (Some (letDecl ''x'' (NominalType ''A'')))" 1]
  by (simp add: sampleEnv_def captureOf_def letDecl_def emptyState_def entryArguments_def)

text \<open>
  C6 as stated fails in guaranteed-context mode for a settable variable: the cell
  holding the copy gets a release cleanup.
\<close>

theorem emitCaptureArguments_guaranteed_counterexample:
  "EnableGuaranteedClosureContexts guaranteedEnv
   \<and> getDeclCaptureKind guaranteedEnv (captureOf (varDecl ''x'' (NominalType ''A''))) = CKConstant
   \<and> Cleanups (emitCaptureArguments guaranteedEnv (captureOf (varDecl ''x'' (NominalType ''A''))) 1
        emptyState)
     = [(DestroyValueCleanup (AllocStackInst 1 (SILType (NominalType ''A'') False)), Active)]"
  by (simp add: guaranteedEnv_def sampleEnv_def captureOf_def varDecl_def emptyState_def
      emitCaptureArguments_def Let_def createFunctionArgument_def
      emitTemporaryAllocation_def emit_def setVarLoc_def enterDestroyCleanup_def
      pushCleanup_def entryArguments_def)



subsection \<open>Forwarding of parameters\<close>

lemma leafArguments_Nil [simp]: "leafArguments env d n [] = []"
  by (simp add: leafArguments_def)

lemma leafArguments_single [simp]:
  "leafArguments env d n [t] = [FunctionArgument n (getLoweredType env t) d]"
  by (simp add: leafArguments_def)

lemma leafArguments_append:
  "leafArguments env d n (xs @ ys) = leafArguments env d n xs @ leafArguments env d (n + length xs) ys"
  by (simp add: leafArguments_def enumerate_append_eq)

lemma length_leafArguments [simp]: "length (leafArguments env d n ls) = length ls"
  by (simp add: leafArguments_def)

lemma argumentsFor_leafArguments:
  "argumentsFor env d n ls = map CreateFunctionArgument (leafArguments env d n ls)"
  by (simp add: argumentsFor_def leafArguments_def split_def)

lemma appendArguments_Nil [simp]: "appendArguments [] s = s"
  by (simp add: appendArguments_def)

lemma appendArguments_append:
  "appendArguments (xs @ ys) s = appendArguments ys (appendArguments xs s)"
  by (simp add: appendArguments_def)

lemma entryArguments_appendArguments [simp]:
  "entryArguments (appendArguments vs s) = entryArguments s @ map CreateFunctionArgument vs"
proof -
  have "filter isArgument (map CreateFunctionArgument vs) = map CreateFunctionArgument vs"
    by (induction vs) simp_all
  then show ?thesis by (simp add: entryArguments_def appendArguments_def)
qed

lemma createFunctionArgument_appendArguments:
  "createFunctionArgument ty d s =
     (FunctionArgument (length (entryArguments s)) ty d,
      appendArguments [FunctionArgument (length (entryArguments s)) ty d] s)"
  by (simp add: createFunctionArgument_def appendArguments_def emit_def Let_def)

lemma makeArgument_leaf:
  assumes "makeArgument env t decl args s =
             (case createFunctionArgument (getLoweredType env t) (Some decl) s of
                (arg, s') \<Rightarrow> (args @ [arg], s'))"
    and "flattenedLeaves t = [t]"
  shows "makeArgument env t decl args s =
         (args @ leafArguments env (Some decl) (length (entryArguments s)) (flattenedLeaves t),
          appendArguments
            (leafArguments env (Some decl) (length (entryArguments s)) (flattenedLeaves t)) s)"
  using assms by (simp add: createFunctionArgument_appendArguments)

lemma makeArgument_effect:
  "makeArgument env t decl args s =
     (args @ leafArguments env (Some decl) (length (entryArguments s)) (flattenedLeaves t),
      appendArguments
        (leafArguments env (Some decl) (length (entryArguments s)) (flattenedLeaves t)) s)"
  "makeArguments env ts decl args s =
     (args @ leafArguments env (Some decl) (length (entryArguments s))
               (flattenedLeavesOfElements ts),
      appendArguments
        (leafArguments env (Some decl) (length (entryArguments s))
           (flattenedLeavesOfElements ts)) s)"
proof (induction env t decl args s and env ts decl args s rule: makeArgument_makeArguments.induct)
  case (1 env ts decl args s)
  then show ?case by simp
next
  case (3 env decl args s)
  show ?case by simp
next
  case (4 env fieldType ts decl args s)
  let ?n = "length (entryArguments s)"
  let ?a = "leafArguments env (Some decl) ?n (flattenedLeaves fieldType)"
  have m: "makeArgument env fieldType decl args s = (args @ ?a, appendArguments ?a s)"
    by (rule "4.IH"(1))
  note ih = "4.IH"(2) [OF m [symmetric]]
  show ?case
    by (simp add: m ih leafArguments_append appendArguments_append)
qed (rule makeArgument_leaf, simp, simp)+

lemma bindParametersForForwarding_effect:
  "bindParametersForForwarding env params out s =
     (out @ forwardedArguments env (length (entryArguments s)) params,
      appendArguments (forwardedArguments env (length (entryArguments s)) params) s)"
proof (induction params arbitrary: out s)
  case Nil
  show ?case by simp
next
  case (Cons param rest)
  show ?case
    by (simp add: Let_def makeArgument_effect Cons.IH forwardingType_def
        appendArguments_append split: option.splits)
qed

lemma forwardedArguments_loweredParameters:
  "forwardedArguments (env\<lparr>loweredParameters := ps\<rparr>) n params = forwardedArguments env n params"
  by (induction params arbitrary: n)
     (simp_all add: leafArguments_def forwardingType_def cong: option.case_cong)

text \<open>
  C9. \<open>bindParametersForForwarding\<close> creates exactly one entry-block argument per
  scalar leaf of each parameter's type (dynamic Self erased, tuples flattened), in
  depth-first declaration order, and appends these raw values to the output vector. The
  state changes by these argument creations only: no cleanup is registered and nothing
  is bound. No parameter-convention descriptor is consumed: the result does not depend
  on the function's convention sequence.
\<close>

theorem bindParametersForForwarding_raw_arguments:
  "bindParametersForForwarding env params out s =
     (out @ forwardedArguments env (length (entryArguments s)) params,
      s\<lparr>emitted := emitted s @
           map CreateFunctionArgument
             (forwardedArguments env (length (entryArguments s)) params)\<rparr>)
   \<and> bindParametersForForwarding (env\<lparr>loweredParameters := ps\<rparr>) params out s =
     bindParametersForForwarding env params out s"
  by (simp add: bindParametersForForwarding_effect forwardedArguments_loweredParameters
      appendArguments_def)

theorem bindParametersForForwarding_raw_arguments_witness:
  "bindParametersForForwarding sampleEnv
     [letDecl ''x'' (NominalType ''Int''),
      letDecl ''y'' (TupleType [NominalType ''A'', NominalType ''B''])] [] emptyState
   = ([FunctionArgument 0 (SILType (NominalType ''Int'') False)
         (Some (letDecl ''x'' (NominalType ''Int''))),
       FunctionArgument 1 (SILType (NominalType ''A'') False)
         (Some (letDecl ''y'' (TupleType [NominalType ''A'', NominalType ''B'']))),
       FunctionArgument 2 (SILType (NominalType ''B'') False)
         (Some (letDecl ''y'' (TupleType [NominalType ''A'', NominalType ''B''])))],
      \<lparr>emitted =
         [CreateFunctionArgument (FunctionArgument 0 (SILType (NominalType ''Int'') False)
            (Some (letDecl ''x'' (NominalType ''Int'')))),
          CreateFunctionArgument (FunctionArgument 1 (SILType (NominalType ''A'') False)
            (Some (letDecl ''y'' (TupleType [NominalType ''A'', NominalType ''B''])))),
          CreateFunctionArgument (FunctionArgument 2 (SILType (NominalType ''B'') False)
            (Some (letDecl ''y'' (TupleType [NominalType ''A'', NominalType ''B'']))))],
       Cleanups = [], VarLocs = []\<rparr>)"
  using bindParametersForForwarding_raw_arguments
    [of sampleEnv "[letDecl ''x'' (NominalType ''Int''),
      letDecl ''y'' (TupleType [NominalType ''A'', NominalType ''B''])]" "[]" emptyState "[]"]
  by (simp add: sampleEnv_def emptyState_def leafArguments_def forwardingType_def
      entryArguments_def letDecl_def)



subsection \<open>The parameter phase and the layout of the entry block\<close>

lemma materializes_refl [simp]: "materializes s s"
  by (simp add: materializes_def)

lemma materializes_trans: "materializes s s1 \<Longrightarrow> materializes s1 s2 \<Longrightarrow> materializes s s2"
proof -
  assume a: "materializes s s1" and b: "materializes s1 s2"
  have "prefix (emitted s) (emitted s2)"
    using a b unfolding materializes_def by (meson prefix_order.order_trans)
  moreover have "VarLocs s2 = VarLocs s" using a b by (simp add: materializes_def)
  moreover have "length (Cleanups s) \<le> length (Cleanups s2)"
    using a b by (simp add: materializes_def)
  moreover have "\<forall>k<length (Cleanups s). isActive s2 k \<longrightarrow> isActive s k"
    using a b unfolding materializes_def by (meson less_le_trans)
  ultimately show ?thesis by (simp add: materializes_def)
qed

lemma materializes_emit [simp]: "materializes s (emit e s)"
  by (simp add: materializes_def emit_def isActive_def)

lemma materializes_setCleanupState [simp]: "materializes s (setCleanupState h Forwarded s)"
  by (simp add: materializes_def isActive_setCleanupState_Forwarded)
     (simp add: setCleanupState_def)

lemma materializes_pushCleanup: "pushCleanup c s = (h, s') \<Longrightarrow> materializes s s'"
  by (auto simp: materializes_def pushCleanup_def isActive_def nth_append)

lemma materializes_emitManagedRValueWithCleanup:
  "emitManagedRValueWithCleanup v s = (mv, s') \<Longrightarrow> materializes s s'"
  by (auto simp: emitManagedRValueWithCleanup_def enterDestroyCleanup_def
      split: prod.splits dest: materializes_pushCleanup)

lemma materializes_forward: "forward mv s = (v, s') \<Longrightarrow> materializes s s'"
  by (auto simp: forward_def split: option.splits)

lemma materializes_copyUnmanaged:
  assumes "copyUnmanaged mv s = (c, s')"
  shows "materializes s s'"
proof -
  let ?v = "CopyValueInst (getValue mv)"
  from assms have "emitManagedRValueWithCleanup ?v (emit (Emit ?v) s) = (c, s')"
    by (simp add: copyUnmanaged_def Let_def)
  from materializes_emit materializes_emitManagedRValueWithCleanup [OF this]
  show ?thesis by (rule materializes_trans)
qed

lemma materializes_moveOrCopyElements:
  "moveOrCopyElements es s = (vs, s') \<Longrightarrow> materializes s s'"
proof (induction es arbitrary: s vs s')
  case Nil
  then show ?case by simp
next
  case (Cons e es)
  obtain v s1 where f: "(if hasCleanup e then forward e s
            else (case copyUnmanaged e s of (c, s') \<Rightarrow> forward c s')) = (v, s1)"
    by (cases "(if hasCleanup e then forward e s
            else (case copyUnmanaged e s of (c, s') \<Rightarrow> forward c s'))")
  have m1: "materializes s s1"
  proof (cases "hasCleanup e")
    case True
    with f show ?thesis by (auto dest: materializes_forward)
  next
    case False
    obtain c s0 where c: "copyUnmanaged e s = (c, s0)" by (cases "copyUnmanaged e s")
    with f False have "forward c s0 = (v, s1)" by simp
    from materializes_copyUnmanaged [OF c] materializes_forward [OF this]
    show ?thesis by (rule materializes_trans)
  qed
  obtain vs' s2 where m: "moveOrCopyElements es s1 = (vs', s2)"
    by (cases "moveOrCopyElements es s1")
  from Cons.prems f m have "s' = s2" by simp
  with m1 Cons.IH [OF m] show ?case by (auto intro: materializes_trans)
qed

lemma materializes_forwardInto: "materializes s (forwardInto mv a s)"
proof -
  obtain v s1 where f: "forward mv s = (v, s1)" by (cases "forward mv s")
  then have "forwardInto mv a s = emit (Store v a) s1" by (simp add: forwardInto_def)
  with materializes_forward [OF f] materializes_emit [of s1 "Store v a"]
  show ?thesis by (auto intro: materializes_trans)
qed

lemma materializes_copyInto: "materializes s (copyInto mv a s)"
  by (simp add: copyInto_def)

lemma materializes_moveOrCopyIntoBuffer: "materializes s (moveOrCopyIntoBuffer b i es s)"
proof (induction es arbitrary: s i)
  case Nil
  show ?case by simp
next
  case (Cons e es)
  let ?a = "TupleElementAddrInst b i (getAddressType (getType (getValue e)))"
  let ?s2 = "if hasCleanup e then forwardInto e ?a (emit (Emit ?a) s)
           else copyInto e ?a (emit (Emit ?a) s)"
  have "materializes (emit (Emit ?a) s) ?s2"
    by (simp add: materializes_forwardInto materializes_copyInto)
  with materializes_emit [of s "Emit ?a"] have "materializes s ?s2"
    by (rule materializes_trans)
  from this Cons.IH [of ?s2 "Suc i"] have "materializes s (moveOrCopyIntoBuffer b (Suc i) es ?s2)"
    by (rule materializes_trans)
  then show ?case by (simp add: moveOrCopyIntoBuffer_step Let_def)
qed

lemma materializes_reassembleTuple:
  assumes "reassembleTuple env t es s = (mv, s')"
  shows "materializes s s'"
proof (cases "isLoadable env t \<and> list_all (\<lambda>elt. \<not> hasCleanup elt) es")
  case True
  with assms reassembleTuple_guaranteed [of env t es s] show ?thesis
    by auto
next
  case g: False
  show ?thesis
  proof (cases "isLoadable env t \<or> \<not> useLoweredAddresses env")
    case True
    obtain vs s1 where m: "moveOrCopyElements es s = (vs, s1)"
      by (cases "moveOrCopyElements es s")
    let ?tv = "TupleInst (getLoweredType env t) vs"
    from assms True g m
    have "emitManagedRValueWithCleanup ?tv (emit (Emit ?tv) s1) = (mv, s')"
      by (simp add: reassembleTuple_def Let_def)
    from materializes_emit materializes_emitManagedRValueWithCleanup [OF this]
    have "materializes s1 s'" by (rule materializes_trans)
    with materializes_moveOrCopyElements [OF m] show ?thesis
      by (rule materializes_trans)
  next
    case False
    let ?b = "AllocStackInst (length (emitted s)) (getLoweredType env t)"
    let ?s1 = "moveOrCopyIntoBuffer ?b 0 es (emit (Emit ?b) s)"
    from assms False
    have "emitManagedRValueWithCleanup ?b ?s1 = (mv, s')"
      by (simp add: reassembleTuple_def Let_def emitTemporaryAllocation_def)
    note a = materializes_emitManagedRValueWithCleanup [OF this]
    have "materializes s ?s1"
      using materializes_emit materializes_moveOrCopyIntoBuffer by (rule materializes_trans)
    from this a show ?thesis by (rule materializes_trans)
  qed
qed

lemma materializes_getManagedValue:
  assumes "getManagedValue arg t info s = Inr (mv, s')"
  shows "materializes s s'"
proof (cases "getConvention info")
  case Direct_Unowned
  with assms have "emitManagedRValueWithCleanup arg (emit (RetainValue arg) s) = (mv, s')"
    by (simp add: getManagedValue_def emitManagedRetain_def)
  from materializes_emit materializes_emitManagedRValueWithCleanup [OF this]
  show ?thesis by (rule materializes_trans)
qed (use assms in \<open>auto simp: getManagedValue_def dest: materializes_emitManagedRValueWithCleanup\<close>)

lemma materializes_visitType:
  assumes "visitType env fa loc t ps s = Inr (mv, ps', s')"
  shows "materializes s s'"
proof (cases ps)
  case Nil
  with assms show ?thesis by (simp add: visitType_def)
next
  case (Cons p rest)
  let ?arg = "FunctionArgument (length (entryArguments s)) (getLoweredType env t) loc"
  let ?s1 = "emit (CreateFunctionArgument ?arg) s"
  from assms Cons obtain mv0 s2 where g: "getManagedValue ?arg t p ?s1 = Inr (mv0, s2)"
    by (auto simp: visitType_def Let_def createFunctionArgument_def split: sum.splits if_splits)
  have m2: "materializes s s2"
    using materializes_emit materializes_getManagedValue [OF g]
    by (rule materializes_trans)
  show ?thesis
  proof (cases "fa \<and> isBlockFunctionType (case getAnyOptionalObjectType t of
                            Some theObjTy \<Rightarrow> theObjTy | None \<Rightarrow> t)")
    case True
    let ?c = "CopyBlockInst (getValue mv0)"
    obtain mv1 s3 where e: "emitManagedRValueWithCleanup ?c (emit (Emit ?c) s2) = (mv1, s3)"
      by (cases "emitManagedRValueWithCleanup ?c (emit (Emit ?c) s2)")
    from assms Cons g True e have s': "s' = s3"
      by (auto simp: visitType_def Let_def createFunctionArgument_def split: if_splits)
    from materializes_emit materializes_emitManagedRValueWithCleanup [OF e]
    have "materializes s2 s3" by (rule materializes_trans)
    with m2 s' show ?thesis by (auto intro: materializes_trans)
  next
    case False
    with assms Cons g have "s' = s2"
      by (auto simp: visitType_def Let_def createFunctionArgument_def split: if_splits)
    with m2 show ?thesis by simp
  qed
qed

lemma materializes_visit:
  "\<forall>mv ps' s'. visit env fa loc t ps s = Inr (mv, ps', s') \<longrightarrow> materializes s s'"
  "\<forall>mvs ps' s'. visitElements env fa loc ts ps s = Inr (mvs, ps', s') \<longrightarrow> materializes s s'"
proof (induction env fa loc t ps s and env fa loc ts ps s rule: visit_visitElements.induct)
  case (1 env fa loc ts ps s)
  show ?case
  proof (intro allI impI)
    fix mv ps' s'
    assume v: "visit env fa loc (TupleType ts) ps s = Inr (mv, ps', s')"
    then obtain es s1 where ve: "visitElements env fa loc ts ps s = Inr (es, ps', s1)"
      and r: "reassembleTuple env (TupleType ts) es s1 = (mv, s')"
      by (auto split: sum.splits prod.splits)
    from 1 [rule_format, OF ve] materializes_reassembleTuple [OF r]
    show "materializes s s'" by (rule materializes_trans)
  qed
next
  case (3 env fa loc ps s)
  show ?case by simp
next
  case (4 env fa loc t ts ps s)
  show ?case
  proof (intro allI impI)
    fix mvs ps'' s''
    assume v: "visitElements env fa loc (t # ts) ps s = Inr (mvs, ps'', s'')"
    then obtain elt ps' s' es where a: "visit env fa loc t ps s = Inr (elt, ps', s')"
      and b: "visitElements env fa loc ts ps' s' = Inr (es, ps'', s'')"
      by (auto split: sum.splits prod.splits)
    from "4.IH"(1) [rule_format, OF a] "4.IH"(2) [OF a refl refl, rule_format, OF b]
    show "materializes s s''" by (rule materializes_trans)
  qed
qed (auto dest: materializes_visitType)


lemma isArgument_emitCleanup [simp]: "\<not> isArgument (emitCleanup c)"
  by (cases c) simp_all

lemma filter_isArgument_firedBy [simp]: "filter isArgument (firedBy d s) = []"
  by (simp add: firedBy_def filter_empty_conv)

lemma popScope_effect:
  "emitted (popScope d s) = emitted s @ firedBy d s"
  "VarLocs (popScope d s) = VarLocs s"
  "length (Cleanups (popScope d s)) = length (Cleanups s)"
  "entryArguments (popScope d s) = entryArguments s"
  by (simp_all add: popScope_def entryArguments_def)

lemma isActive_popScope: "isActive (popScope d s) k = (isActive s k \<and> k < d)"
proof (cases "k < length (Cleanups s)")
  case False
  then show ?thesis by (simp add: isActive_def popScope_effect)
next
  case True
  show ?thesis
  proof (cases "k < d")
    case k: True
    with True have "Cleanups (popScope d s) ! k = Cleanups s ! k"
      by (simp add: popScope_def nth_append)
    with True k show ?thesis
      by (simp add: isActive_def popScope_effect)
  next
    case k: False
    with True have "Cleanups (popScope d s) ! k =
        (fst (Cleanups s ! k), if snd (Cleanups s ! k) = Active then Popped else snd (Cleanups s ! k))"
      by (simp add: popScope_def nth_append min_def)
    with True k show ?thesis
      by (simp add: isActive_def popScope_effect)
  qed
qed

lemma discards_popScope:
  assumes "materializes s s1"
  shows "discards s (popScope (length (Cleanups s)) s1)"
proof -
  let ?s' = "popScope (length (Cleanups s)) s1"
  have "prefix (emitted s) (emitted ?s')"
    using assms by (auto simp: materializes_def popScope_effect prefix_def)
  moreover have "VarLocs ?s' = VarLocs s"
    using assms by (simp add: materializes_def popScope_effect)
  moreover have "length (Cleanups s) \<le> length (Cleanups ?s')"
    using assms by (simp add: materializes_def popScope_effect)
  moreover have "\<forall>k<length (Cleanups s). isActive ?s' k \<longrightarrow> isActive s k"
    using assms by (simp add: materializes_def isActive_popScope)
  moreover have "\<forall>k. isActive ?s' k \<longrightarrow> k < length (Cleanups s)"
    by (simp add: isActive_popScope)
  ultimately show ?thesis by (simp add: discards_def materializes_def)
qed

lemma discards_refl [simp]: "discards s s"
  by (simp add: discards_def isActive_def)

lemma discards_trans:
  assumes "discards s s1" "discards s1 s2"
  shows "discards s s2"
proof -
  have m: "materializes s s2"
    using assms by (auto simp: discards_def intro: materializes_trans)
  have "k < length (Cleanups s)" if a: "isActive s2 k" for k
  proof -
    from a assms(2) have k1: "k < length (Cleanups s1)" by (simp add: discards_def)
    with a assms(2) have "isActive s1 k" by (simp add: discards_def materializes_def)
    with assms(1) show ?thesis by (simp add: discards_def)
  qed
  with m show ?thesis by (simp add: discards_def)
qed

lemma entryArguments_emit_other [simp]:
  "\<not> isArgument e \<Longrightarrow> entryArguments (emit e s) = entryArguments s"
  by (simp add: entryArguments_emit)

lemma emitDebugValueFor_effect:
  "materializes s (emitDebugValueFor v c n s)"
  "entryArguments (emitDebugValueFor v c n s) = entryArguments s"
  by (simp_all add: emitDebugValueFor_def)

lemma ArgumentInitHelper_makeArgument_effect:
  assumes "ArgumentInitHelper_makeArgument env ty loc h s = Inr (mv, h', s')"
  shows "\<exists>t. ty = Some t \<and> ArgNo h' = ArgNo h \<and> materializes s s' \<and>
             entryArguments s' =
               entryArguments s @
               argumentsFor env loc (length (entryArguments s))
                 (flattenedLeaves (eraseDynamicSelfType env t))"
proof (cases ty)
  case None
  with assms show ?thesis by (simp add: ArgumentInitHelper_makeArgument_def)
next
  case (Some t)
  with assms obtain ps' where v: "visit env True loc (eraseDynamicSelfType env t) (parameters h) s
                                    = Inr (mv, ps', s')" and h': "h' = h\<lparr>parameters := ps'\<rparr>"
    by (auto simp: ArgumentInitHelper_makeArgument_def Let_def split: sum.splits)
  from visit_sound_aux(1) [rule_format, OF v] materializes_visit(1) [rule_format, OF v] h' Some
  show ?thesis by auto
qed

lemma discardArgument_effect:
  assumes "discardArgument env ty loc PD h s = Inr (h', s')"
  shows "\<exists>t. ty = Some t \<and> ArgNo h' = ArgNo h \<and> discards s s' \<and>
             entryArguments s' =
               entryArguments s @
               argumentsFor env loc (length (entryArguments s))
                 (flattenedLeaves (eraseDynamicSelfType env t))"
proof -
  from assms obtain argrv s1 where
    m: "ArgumentInitHelper_makeArgument env ty loc h s = Inr (argrv, h', s1)"
    and s': "s' = popScope (length (Cleanups s))
                    (case PD of None \<Rightarrow> s1
                     | Some pd \<Rightarrow> emitDebugValueFor (getValue argrv) (isLet pd) (ArgNo h') s1)"
    by (auto simp: discardArgument_def Let_def scopeDepth_def split: sum.splits option.splits)
  let ?s2 = "case PD of None \<Rightarrow> s1
             | Some pd \<Rightarrow> emitDebugValueFor (getValue argrv) (isLet pd) (ArgNo h') s1"
  from ArgumentInitHelper_makeArgument_effect [OF m] obtain t where t: "ty = Some t"
    "ArgNo h' = ArgNo h" "materializes s s1"
    "entryArguments s1 = entryArguments s @
       argumentsFor env loc (length (entryArguments s)) (flattenedLeaves (eraseDynamicSelfType env t))"
    by blast
  have "materializes s1 ?s2" by (cases PD) (simp_all add: emitDebugValueFor_effect)
  with t(3) have "materializes s ?s2" by (rule materializes_trans)
  then have "discards s s'" unfolding s' by (rule discards_popScope)
  moreover have "entryArguments s' = entryArguments s1"
    unfolding s' by (cases PD) (simp_all add: popScope_effect emitDebugValueFor_effect)
  ultimately show ?thesis using t by simp
qed


lemma discardEach_append:
  "discardEach env (xs @ ys) loc h s =
     (case discardEach env xs loc h s of
        Inl e \<Rightarrow> Inl e
      | Inr (h1, s1) \<Rightarrow> discardEach env ys loc h1 s1)"
  by (induction xs arbitrary: h s) (simp_all split: sum.splits prod.splits)

lemma discardEach_single:
  "discardEach env [t] loc h s = discardArgument env (Some t) loc None h s"
  by (simp split: sum.splits prod.splits)

lemma emitAnonymousParam_leaf:
  assumes "emitAnonymousParam env ty loc PD h s = discardArgument env ty loc PD h s"
    and "\<And>t. ty = Some t \<Longrightarrow> anonymousLeaves env t = [t]"
  shows "PD = None \<longrightarrow> (\<forall>t. ty = Some t \<longrightarrow>
           emitAnonymousParam env ty loc PD h s = discardEach env (anonymousLeaves env t) loc h s)"
  using assms by (auto simp add: discardEach_single simp del: discardEach.simps)

lemma emitAnonymousParam_discardEach:
  "PD = None \<longrightarrow> (\<forall>t. ty = Some t \<longrightarrow>
      emitAnonymousParam env ty loc PD h s = discardEach env (anonymousLeaves env t) loc h s)"
  "emitAnonymousParams env ts loc h s = discardEach env (anonymousLeavesOfElements env ts) loc h s"
proof (induction env ty loc PD h s and env ts loc h s
    rule: emitAnonymousParam_emitAnonymousParams.induct)
  case (1 env ts paramLoc PD h s)
  then show ?case by (simp add: discardEach_single del: discardEach.simps)
next
  case (3 env paramLoc h s)
  show ?case by simp
next
  case (4 env eltType ts paramLoc h s)
  from "4.IH"(1) have a: "emitAnonymousParam env (Some eltType) paramLoc None h s
      = discardEach env (anonymousLeaves env eltType) paramLoc h s" by simp
  show ?case
  proof (cases "emitAnonymousParam env (Some eltType) paramLoc None h s")
    case (Inl e)
    with a have "discardEach env (anonymousLeaves env eltType) paramLoc h s = Inl e" by simp
    with Inl show ?thesis by (simp add: discardEach_append)
  next
    case (Inr r)
    obtain h1 s1 where r: "r = (h1, s1)" by (cases r)
    have e: "emitAnonymousParam env (Some eltType) paramLoc None h s = Inr (h1, s1)"
      using Inr unfolding r .
    from e a have d: "discardEach env (anonymousLeaves env eltType) paramLoc h s = Inr (h1, s1)"
      by simp
    have "emitAnonymousParams env ts paramLoc h1 s1 =
            discardEach env (anonymousLeavesOfElements env ts) paramLoc h1 s1"
      by (rule "4.IH"(2) [OF e refl])
    with e d show ?thesis by (simp add: discardEach_append)
  qed
qed (rule emitAnonymousParam_leaf, simp, simp)+

lemma anonymousLeaves_stop:
  "list_all (\<lambda>c. isMaterializable env c \<or> \<not> isTupleType c) (anonymousLeaves env t)"
  "list_all (\<lambda>c. isMaterializable env c \<or> \<not> isTupleType c) (anonymousLeavesOfElements env ts)"
  by (induction env t and env ts rule: anonymousLeaves_anonymousLeavesOfElements.induct)
     simp_all

lemma emitAnonymousParam_cases:
  "(isMaterializable env t \<or> \<not> isTupleType t \<longrightarrow>
      emitAnonymousParam env (Some t) loc PD h s = discardArgument env (Some t) loc PD h s)
   \<and> (\<not> isMaterializable env t \<and> isTupleType t \<longrightarrow>
      emitAnonymousParam env (Some t) loc PD h s = discardEach env (anonymousLeaves env t) loc h s)"
  by (cases t) (simp_all add: emitAnonymousParam_discardEach(2))

lemma erasedLeaves_simps [simp]:
  "erasedLeaves env [] = []"
  "erasedLeaves env (c # cs) = flattenedLeaves (eraseDynamicSelfType env c) @ erasedLeaves env cs"
  by (simp_all add: erasedLeaves_def)

lemma discardEach_effect:
  "discardEach env cs loc h s = Inr (h', s') \<Longrightarrow>
     ArgNo h' = ArgNo h \<and> discards s s' \<and>
     entryArguments s' =
       entryArguments s @ argumentsFor env loc (length (entryArguments s)) (erasedLeaves env cs)"
proof (induction cs arbitrary: h s)
  case Nil
  then show ?case by simp
next
  case (Cons c cs)
  from Cons.prems obtain h1 s1 where
    d: "discardArgument env (Some c) loc None h s = Inr (h1, s1)"
    and r: "discardEach env cs loc h1 s1 = Inr (h', s')"
    by (auto split: sum.splits)
  from discardArgument_effect [OF d] have e1: "ArgNo h1 = ArgNo h" "discards s s1"
    "entryArguments s1 = entryArguments s @
       argumentsFor env loc (length (entryArguments s)) (flattenedLeaves (eraseDynamicSelfType env c))"
    by auto
  note ih = Cons.IH [OF r]
  from e1(2) ih have "discards s s'" by (auto intro: discards_trans)
  with e1 ih show ?case by (simp add: argumentsFor_append)
qed

lemma emitAnonymousParam_effect:
  assumes "emitAnonymousParam env ty loc PD h s = Inr (h', s')"
  shows "\<exists>t. ty = Some t \<and> ArgNo h' = ArgNo h \<and> discards s s' \<and>
     entryArguments s' =
       entryArguments s @
       argumentsFor env loc (length (entryArguments s)) (erasedLeaves env (anonymousLeaves env t))"
proof (cases ty)
  case None
  with assms show ?thesis
    by (simp add: discardArgument_def ArgumentInitHelper_makeArgument_def)
next
  case (Some t)
  show ?thesis
  proof (cases "\<not> isMaterializable env t \<and> isTupleType t")
    case True
    with emitAnonymousParam_cases [of env t loc PD h s] assms Some
    have "discardEach env (anonymousLeaves env t) loc h s = Inr (h', s')" by simp
    from discardEach_effect [OF this] Some show ?thesis by simp
  next
    case False
    with emitAnonymousParam_cases [of env t loc PD h s] assms Some
    have d: "discardArgument env (Some t) loc PD h s = Inr (h', s')" by auto
    from False have "anonymousLeaves env t = [t]" by (cases t) auto
    with discardArgument_effect [OF d] Some show ?thesis by simp
  qed
qed


lemma indirectResults_length_shift:
  "length (indirectResults env n ls) = length (indirectResults env m ls)"
  by (induction ls arbitrary: n m) (auto simp: Let_def)

lemma indirectResults_append:
  "indirectResults env n (xs @ ys) =
     indirectResults env n xs @ indirectResults env (n + length (indirectResults env n xs)) ys"
proof (induction xs arbitrary: n)
  case Nil
  show ?case by simp
next
  case (Cons x xs)
  show ?case
    using indirectResults_length_shift [of env "Suc n" xs n]
    by (simp add: Let_def Cons.IH)
qed

lemma emitIndirectResultParameters_leaf:
  assumes "emitIndirectResultParameters env t s =
     (let loweredTy = getLoweredType env (DC_mapTypeIntoContext env t)
      in if \<not> isReturnedIndirectlyInSIL env loweredTy then s
         else snd (createFunctionArgument loweredTy (Some (returnValueDecl t)) s))"
    and "flattenedLeaves t = [t]"
  shows "emitIndirectResultParameters env t s =
     appendArguments (indirectResults env (length (entryArguments s)) (flattenedLeaves t)) s"
  using assms by (simp add: Let_def createFunctionArgument_appendArguments)

lemma emitIndirectResultParameters_effect:
  "emitIndirectResultParameters env t s =
     appendArguments (indirectResults env (length (entryArguments s)) (flattenedLeaves t)) s"
  "emitIndirectResultParametersOfElements env ts s =
     appendArguments
       (indirectResults env (length (entryArguments s)) (flattenedLeavesOfElements ts)) s"
proof (induction env t s and env ts s
    rule: emitIndirectResultParameters_emitIndirectResultParametersOfElements.induct)
  case (1 env ts s)
  then show ?case by simp
next
  case (3 env s)
  show ?case by simp
next
  case (4 env eltType ts s)
  let ?s1 = "emitIndirectResultParameters env eltType s"
  have "emitIndirectResultParametersOfElements env (eltType # ts) s =
          appendArguments
            (indirectResults env (length (entryArguments ?s1)) (flattenedLeavesOfElements ts)) ?s1"
    using "4.IH"(2) by simp
  then show ?case
    unfolding "4.IH"(1)
    by (simp add: indirectResults_append appendArguments_append)
qed (rule emitIndirectResultParameters_leaf, simp, simp)+

lemma getType_indirectResults:
  "map getType (indirectResults env n ls) =
     filter (isReturnedIndirectlyInSIL env)
       (map (\<lambda>leaf. getLoweredType env (DC_mapTypeIntoContext env leaf)) ls)"
  by (induction ls arbitrary: n) (simp_all add: Let_def)

lemma bindArgument_effect:
  "fst (bindArgument vd rv h s) = h"
  "prefix (emitted s) (emitted (snd (bindArgument vd rv h s)))"
  "entryArguments (snd (bindArgument vd rv h s)) = entryArguments s"
  by (simp_all add: bindArgument_def emitDebugValueFor_def setVarLoc_def emit_def
      entryArguments_def)

lemma makeArgumentIntoBinding_effect:
  assumes "makeArgumentIntoBinding env ty vd h s = Inr (h', s')"
  shows "\<exists>t. ty = Some t \<and> ArgNo h' = ArgNo h \<and> prefix (emitted s) (emitted s') \<and>
             entryArguments s' =
               entryArguments s @
               argumentsFor env (Some vd) (length (entryArguments s))
                 (flattenedLeaves (eraseDynamicSelfType env t))"
proof -
  from assms obtain argrv h1 s1 where
    m: "ArgumentInitHelper_makeArgument env ty (Some vd) h s = Inr (argrv, h1, s1)"
    by (auto simp: makeArgumentIntoBinding_def split: sum.splits)
  from ArgumentInitHelper_makeArgument_effect [OF m] obtain t where t: "ty = Some t"
    "ArgNo h1 = ArgNo h" "materializes s s1"
    "entryArguments s1 = entryArguments s @
       argumentsFor env (Some vd) (length (entryArguments s))
         (flattenedLeaves (eraseDynamicSelfType env t))"
    by blast
  have b: "h' = h1 \<and> prefix (emitted s1) (emitted s') \<and> entryArguments s' = entryArguments s1"
    if "(h', s') = bindArgument vd rv h1 s2" "prefix (emitted s1) (emitted s2)"
       "entryArguments s2 = entryArguments s1" for rv s2
    using that bindArgument_effect [where vd = vd and rv = rv and h = h1 and s = s2]
    by (metis fst_conv snd_conv prefix_order.order_trans)
  have "h' = h1 \<and> prefix (emitted s1) (emitted s') \<and> entryArguments s' = entryArguments s1"
  proof (cases "isInOut vd")
    case True
    show ?thesis
    proof (cases "declType vd")
      case None
      with assms m t True show ?thesis by (simp add: makeArgumentIntoBinding_def)
    next
      case (Some vt)
      show ?thesis
      proof (cases "getInOutObjectType vt = BuiltinUnsafeValueBufferType")
        case b1: True
        with assms m t True Some show ?thesis
          by (auto simp: makeArgumentIntoBinding_def Let_def setVarLoc_def emit_def
              entryArguments_def)
      next
        case b1: False
        with assms m t True Some have "(h', s') = bindArgument vd argrv h1 s1"
          by (auto simp: makeArgumentIntoBinding_def Let_def split: if_splits)
        from b [OF this] show ?thesis by simp
      qed
    qed
  next
    case False
    show ?thesis
    proof (cases "isMetatypeType t \<and> isDynamicSelfMetatype t \<and>
                  getLoweredType env t \<noteq> getType (getValue argrv)")
      case True
      let ?c = "UncheckedBitCastInst (getValue argrv) (getLoweredType env t)"
      from assms m t True False
      have "(h', s') = bindArgument vd (forUnmanaged ?c) h1 (emit (Emit ?c) s1)"
        by (auto simp: makeArgumentIntoBinding_def Let_def)
      from b [OF this] show ?thesis by simp
    next
      case c: False
      with assms m t False have "(h', s') = bindArgument vd argrv h1 s1"
        by (auto simp: makeArgumentIntoBinding_def Let_def split: if_splits)
      from b [OF this] show ?thesis by simp
    qed
  qed
  with t show ?thesis
    by (auto simp: materializes_def intro: prefix_order.order_trans)
qed

lemma emitParam_effect:
  assumes "emitParam env PD h s = Inr (h', s')"
  shows "ArgNo h' = ArgNo h + 1 \<and> prefix (emitted s) (emitted s') \<and>
         entryArguments s' =
           entryArguments s @
           argumentsFor env (Some PD) (length (entryArguments s)) (paramLeaves env PD)"
proof (cases "hasName PD")
  case True
  with assms have "makeArgumentIntoBinding env (declType PD) PD (h\<lparr>ArgNo := ArgNo h + 1\<rparr>) s
                     = Inr (h', s')"
    by (simp add: emitParam_def Let_def)
  from makeArgumentIntoBinding_effect [OF this] True show ?thesis
    by (auto simp: paramLeaves_def)
next
  case False
  with assms have "emitAnonymousParam env (declType PD) (Some PD) (Some PD)
                     (h\<lparr>ArgNo := ArgNo h + 1\<rparr>) s = Inr (h', s')"
    by (simp add: emitParam_def Let_def)
  from emitAnonymousParam_effect [OF this] False show ?thesis
    by (auto simp: paramLeaves_def discards_def materializes_def)
qed

lemma emitParams_effect:
  "emitParams env params h s = Inr (h', s') \<Longrightarrow>
     ArgNo h' = ArgNo h + length params \<and> prefix (emitted s) (emitted s') \<and>
     entryArguments s' =
       entryArguments s @
       map CreateFunctionArgument (paramArguments env (length (entryArguments s)) params)"
proof (induction params arbitrary: h s)
  case Nil
  then show ?case by simp
next
  case (Cons PD rest)
  from Cons.prems obtain h1 s1 where p: "emitParam env PD h s = Inr (h1, s1)"
    and r: "emitParams env rest h1 s1 = Inr (h', s')"
    by (auto split: sum.splits)
  note e = emitParam_effect [OF p]
  note ih = Cons.IH [OF r]
  from e ih have "prefix (emitted s) (emitted s')"
    by (auto intro: prefix_order.order_trans)
  with e ih show ?case
    by (simp add: argumentsFor_leafArguments)
qed

lemma emitParams_append:
  "emitParams env (xs @ ys) h s =
     (case emitParams env xs h s of
        Inl e \<Rightarrow> Inl e
      | Inr (h1, s1) \<Rightarrow> emitParams env ys h1 s1)"
  by (induction xs arbitrary: h s) (simp_all split: sum.splits prod.splits)

lemma emitParamLists_concat:
  "emitParamLists env paramLists h s = emitParams env (concat paramLists) h s"
  by (induction paramLists arbitrary: h s)
     (simp_all add: emitParams_append split: sum.splits prod.splits)

lemma emitProlog_effect:
  assumes "emitProlog env paramLists resultType throws s = Inr (n, s')"
  shows "\<exists>s1. n = length (concat paramLists) + (if throws then 1 else 0) \<and>
          s' = (if throws then emit (errorSlot (length (concat paramLists) + 1)) s1 else s1) \<and>
          prefix (emitted s @
                  map CreateFunctionArgument
                    (indirectResults env (length (entryArguments s)) (flattenedLeaves (getCanonicalType env resultType))))
            (emitted s1) \<and>
          entryArguments s1 =
            entryArguments s @
            map CreateFunctionArgument
              (indirectResults env (length (entryArguments s)) (flattenedLeaves (getCanonicalType env resultType)) @
               paramArguments env
                 (length (entryArguments s) +
                  length (indirectResults env (length (entryArguments s))
                            (flattenedLeaves (getCanonicalType env resultType))))
                 (concat (rev paramLists)))"
proof -
  let ?ind = "indirectResults env (length (entryArguments s)) (flattenedLeaves (getCanonicalType env resultType))"
  let ?s0 = "appendArguments ?ind s"
  let ?h0 = "\<lparr>parameters = loweredParameters env, ArgNo = 0\<rparr>"
  from assms obtain h1 s1 where
    p: "emitParams env (concat (rev paramLists)) ?h0 ?s0 = Inr (h1, s1)"
    by (auto simp: emitProlog_def Let_def emitIndirectResultParameters_effect
        emitParamLists_concat split: sum.splits)
  note e = emitParams_effect [OF p]
  have len: "length (concat (rev paramLists)) = length (concat paramLists)"
    by (simp add: length_concat rev_map [symmetric])
  from assms p e len have "n = length (concat paramLists) + (if throws then 1 else 0)"
    "s' = (if throws then emit (errorSlot (length (concat paramLists) + 1)) s1 else s1)"
    by (auto simp: emitProlog_def Let_def emitIndirectResultParameters_effect
        emitParamLists_concat errorSlot_def)
  moreover have "emitted ?s0 = emitted s @ map CreateFunctionArgument ?ind"
    by (simp add: appendArguments_def)
  ultimately show ?thesis using e by auto
qed


lemma emitCaptureArguments_entryArguments:
  "entryArguments (emitCaptureArguments env c n s) =
     entryArguments s @
     map CreateFunctionArgument (captureArguments env (length (entryArguments s)) [c])"
proof (cases "getDeclCaptureKind env c")
  case CKNone
  then show ?thesis by (simp add: emitCaptureArguments_def Let_def)
next
  case CKConstant
  then show ?thesis
    by (simp add: emitCaptureArguments_def Let_def createFunctionArgument_def
        emitTemporaryAllocation_def emit_def setVarLoc_def enterDestroyCleanup_def
        pushCleanup_def entryArguments_def captureArgumentType_def)
next
  case CKBox
  then show ?thesis
    by (simp add: emitCaptureArguments_def Let_def createFunctionArgument_def
        emit_def setVarLoc_def pushCleanup_def entryArguments_def captureArgumentType_def)
next
  case CKStorageAddress
  then show ?thesis
    by (simp add: emitCaptureArguments_def Let_def createFunctionArgument_def
        emit_def setVarLoc_def entryArguments_def captureArgumentType_def)
qed

lemma emitCaptures_fold:
  "list_all (\<lambda>c. \<not> isDynamicSelfMetadata c) captures \<Longrightarrow>
   emitCaptures env dynamicSelfType captures n s =
     foldl (\<lambda>s (i, c). emitCaptureArguments env c i s) s (enumerate (Suc n) captures)"
  by (induction captures arbitrary: n s) simp_all

lemma emitCaptures_entryArguments:
  "list_all (\<lambda>c. \<not> isDynamicSelfMetadata c) captures \<Longrightarrow>
   entryArguments (emitCaptures env dynamicSelfType captures n s) =
     entryArguments s @
     map CreateFunctionArgument (captureArguments env (length (entryArguments s)) captures)"
proof (induction captures arbitrary: n s)
  case Nil
  show ?case by simp
next
  case (Cons c cs)
  let ?s1 = "emitCaptureArguments env c (Suc n) s"
  from Cons have ih: "entryArguments (emitCaptures env dynamicSelfType cs (Suc n) ?s1) =
     entryArguments ?s1 @
     map CreateFunctionArgument (captureArguments env (length (entryArguments ?s1)) cs)"
    by simp
  from Cons.prems show ?case
    by (simp add: ih emitCaptureArguments_entryArguments)
qed

lemma length_paramArguments:
  "length (paramArguments env n params) =
     sum_list (map (\<lambda>PD. length (paramLeaves env PD)) params)"
  by (induction params arbitrary: n) simp_all

lemma length_captureArguments:
  "length (captureArguments env n captures) =
     length (filter (\<lambda>c. getDeclCaptureKind env c \<noteq> CKNone) captures)"
  by (induction captures arbitrary: n) simp_all

text \<open>
  C4. \<open>emitIndirectResultParameters\<close> changes the state by argument creations only (no
  cleanup, no binding): one argument for each scalar leaf of the tuple-expanded result
  type whose lowered type is returned indirectly, in depth-first order, of that lowered
  type. \<open>emitProlog\<close> applies it to the canonical result type first: its result is that
  of the parameter phase started in the state extended by these arguments (followed by
  the error slot if the function throws), so whenever it returns these arguments are
  the first things emitted and the first arguments of the entry block, before
  everything the parameters create.
\<close>

theorem emitProlog_indirect_results_first:
  "emitIndirectResultParameters env resultType s =
     s\<lparr>emitted := emitted s @
          map CreateFunctionArgument
            (indirectResults env (length (entryArguments s)) (flattenedLeaves resultType))\<rparr>
   \<and> map getType (indirectResults env (length (entryArguments s)) (flattenedLeaves resultType)) =
       filter (isReturnedIndirectlyInSIL env)
         (map (\<lambda>leaf. getLoweredType env (DC_mapTypeIntoContext env leaf))
            (flattenedLeaves resultType))
   \<and> emitProlog env paramLists resultType throws s =
       (case emitParamLists env (rev paramLists)
               \<lparr>parameters = loweredParameters env, ArgNo = 0\<rparr>
               (s\<lparr>emitted := emitted s @
                     map CreateFunctionArgument
                       (indirectResults env (length (entryArguments s))
                          (flattenedLeaves (getCanonicalType env resultType)))\<rparr>) of
          Inl e \<Rightarrow> Inl e
        | Inr (emitter, s2) \<Rightarrow>
            if throws
            then Inr (ArgNo emitter + 1, emit (errorSlot (ArgNo emitter + 1)) s2)
            else Inr (ArgNo emitter, s2))
   \<and> (\<forall>n s'. emitProlog env paramLists resultType throws s = Inr (n, s') \<longrightarrow>
         prefix (emitted s @
                 map CreateFunctionArgument
                   (indirectResults env (length (entryArguments s))
                      (flattenedLeaves (getCanonicalType env resultType))))
           (emitted s') \<and>
         prefix (entryArguments s @
                 map CreateFunctionArgument
                   (indirectResults env (length (entryArguments s))
                      (flattenedLeaves (getCanonicalType env resultType))))
           (entryArguments s'))"
proof (intro conjI allI impI)
  show "emitIndirectResultParameters env resultType s =
     s\<lparr>emitted := emitted s @
          map CreateFunctionArgument
            (indirectResults env (length (entryArguments s)) (flattenedLeaves resultType))\<rparr>"
    by (simp add: emitIndirectResultParameters_effect appendArguments_def)
  show "map getType (indirectResults env (length (entryArguments s)) (flattenedLeaves resultType)) =
       filter (isReturnedIndirectlyInSIL env)
         (map (\<lambda>leaf. getLoweredType env (DC_mapTypeIntoContext env leaf))
            (flattenedLeaves resultType))"
    by (rule getType_indirectResults)
  show "emitProlog env paramLists resultType throws s =
       (case emitParamLists env (rev paramLists)
               \<lparr>parameters = loweredParameters env, ArgNo = 0\<rparr>
               (s\<lparr>emitted := emitted s @
                     map CreateFunctionArgument
                       (indirectResults env (length (entryArguments s))
                          (flattenedLeaves (getCanonicalType env resultType)))\<rparr>) of
          Inl e \<Rightarrow> Inl e
        | Inr (emitter, s2) \<Rightarrow>
            if throws
            then Inr (ArgNo emitter + 1, emit (errorSlot (ArgNo emitter + 1)) s2)
            else Inr (ArgNo emitter, s2))"
    by (simp add: emitProlog_def Let_def emitIndirectResultParameters_effect
        appendArguments_def errorSlot_def split: sum.splits)
next
  fix n s'
  assume a: "emitProlog env paramLists resultType throws s = Inr (n, s')"
  let ?ind = "indirectResults env (length (entryArguments s))
                (flattenedLeaves (getCanonicalType env resultType))"
  from emitProlog_effect [OF a] obtain s1 where s1:
    "s' = (if throws then emit (errorSlot (length (concat paramLists) + 1)) s1 else s1)"
    "prefix (emitted s @ map CreateFunctionArgument ?ind) (emitted s1)"
    "entryArguments s1 = entryArguments s @
       map CreateFunctionArgument
         (?ind @ paramArguments env (length (entryArguments s) + length ?ind)
                  (concat (rev paramLists)))"
    by blast
  have "prefix (emitted s1) (emitted s')" using s1(1) by (simp add: emit_def)
  with s1(2) show "prefix (emitted s @ map CreateFunctionArgument ?ind) (emitted s')"
    by (rule prefix_order.order_trans)
  have "entryArguments s' = entryArguments s1"
    using s1(1) by (simp add: errorSlot_def)
  with s1(3) show "prefix (entryArguments s @ map CreateFunctionArgument ?ind) (entryArguments s')"
    by simp
qed


text \<open>
  C5 (as amended). For a throwing closure with captures none of which is the dynamic-self
  metadata, and \<open>M\<close> explicit parameters: the entry block receives, in this order, the
  arguments of the indirect results, the arguments of the explicit parameters (one per
  scalar leaf, lists in reverse order) and the arguments of the captures (one per
  capture of a kind other than None). The error-slot marker is a debug value of an
  undefined error value: it creates no argument, it is emitted after the explicit
  parameters and before the captures, and its ordinal is \<open>M + 1\<close>, which is what the
  ordinal-returning \<open>emitProlog\<close> returns; the captures are lowered afterwards with the
  ordinals \<open>M + 2\<close>, \<open>M + 3\<close>, ...
\<close>

theorem emitPrologClosure_throwing_layout:
  assumes "emitPrologClosure env captures dynamicSelfType paramLists resultType True s = Inr s'"
    and "list_all (\<lambda>c. \<not> isDynamicSelfMetadata c) captures"
    and "M = length (concat paramLists)"
    and "indirect = indirectResults env (length (entryArguments s))
                      (flattenedLeaves (getCanonicalType env resultType))"
    and "params = paramArguments env (length (entryArguments s) + length indirect)
                    (concat (rev paramLists))"
    and "caps = captureArguments env (length (entryArguments s) + length indirect + length params)
                  captures"
  shows "\<exists>s1.
      emitProlog env paramLists resultType True s = Inr (M + 1, emit (errorSlot (M + 1)) s1)
    \<and> entryArguments s1 = entryArguments s @ map CreateFunctionArgument (indirect @ params)
    \<and> entryArguments (emit (errorSlot (M + 1)) s1) = entryArguments s1
    \<and> s' = foldl (\<lambda>s (i, c). emitCaptureArguments env c i s) (emit (errorSlot (M + 1)) s1)
              (enumerate (M + 2) captures)
    \<and> entryArguments s' =
         entryArguments s @ map CreateFunctionArgument (indirect @ params @ caps)
    \<and> length params = sum_list (map (\<lambda>PD. length (paramLeaves env PD)) (concat paramLists))
    \<and> length caps = length (filter (\<lambda>c. getDeclCaptureKind env c \<noteq> CKNone) captures)"
proof -
  from assms(1) obtain n s2 where
    p: "emitProlog env paramLists resultType True s = Inr (n, s2)"
    and s': "s' = emitCaptures env dynamicSelfType captures n s2"
    by (auto simp: emitPrologClosure_def split: sum.splits)
  from emitProlog_effect [OF p] assms(3,4,5) obtain s1 where s1:
    "n = M + 1" "s2 = emit (errorSlot (M + 1)) s1"
    "entryArguments s1 = entryArguments s @ map CreateFunctionArgument (indirect @ params)"
    by auto
  have e2: "entryArguments s2 = entryArguments s1"
    using s1(2) by (simp add: errorSlot_def)
  have "sum_list (map (\<lambda>PD. length (paramLeaves env PD)) (concat (rev paramLists))) =
        sum_list (map (\<lambda>PD. length (paramLeaves env PD)) (concat paramLists))"
    by (induction paramLists) simp_all
  then have lp: "length params =
      sum_list (map (\<lambda>PD. length (paramLeaves env PD)) (concat paramLists))"
    using assms(5) by (simp add: length_paramArguments)
  have f: "s' = foldl (\<lambda>s (i, c). emitCaptureArguments env c i s) s2 (enumerate (M + 2) captures)"
    using s' s1(1) emitCaptures_fold [OF assms(2), of env dynamicSelfType n s2] by simp
  have "entryArguments s' =
          entryArguments s2 @
          map CreateFunctionArgument (captureArguments env (length (entryArguments s2)) captures)"
    unfolding s' by (rule emitCaptures_entryArguments [OF assms(2)])
  then have ea: "entryArguments s' =
         entryArguments s @ map CreateFunctionArgument (indirect @ params @ caps)"
    using e2 s1(3) assms(6) by (simp add: add.assoc)
  show ?thesis
    using p s1 e2 f ea lp assms(6) by (auto simp: length_captureArguments)
qed

text \<open>
  C8 (as amended). For an unnamed parameter: a type that is materializable or not a
  tuple is materialized under one discard scope; a tuple that is not materializable is
  split recursively, and its pieces - the elements that are materializable or not
  tuples, a materializable tuple element being one piece - are materialized and
  discarded one after the other, each under its own scope, the non-materializable tuple
  itself never being materialized as a whole. Under a scope the argument or arguments
  are created as for any parameter, the scope is closed right after (after the debug
  value, if there is one), which fires the pending cleanups registered since it was
  opened; afterwards no variable is bound and no cleanup registered in between is
  pending.
\<close>

theorem emitAnonymousParam_scoped_discard:
  "(isMaterializable env t \<or> \<not> isTupleType t \<longrightarrow>
      emitAnonymousParam env (Some t) paramLoc PD h s =
        discardArgument env (Some t) paramLoc PD h s)
   \<and> (\<not> isMaterializable env t \<and> isTupleType t \<longrightarrow>
      emitAnonymousParam env (Some t) paramLoc PD h s =
        discardEach env (anonymousLeaves env t) paramLoc h s \<and>
      list_all (\<lambda>c. isMaterializable env c \<or> \<not> isTupleType c) (anonymousLeaves env t))
   \<and> (\<forall>c PD' h0 s0 h' s'.
        discardArgument env (Some c) paramLoc PD' h0 s0 = Inr (h', s') \<longrightarrow>
        (\<exists>argrv s1.
           ArgumentInitHelper_makeArgument env (Some c) paramLoc h0 s0 = Inr (argrv, h', s1) \<and>
           s' = popScope (length (Cleanups s0))
                  (case PD' of
                     None \<Rightarrow> s1
                   | Some pd \<Rightarrow> emitDebugValueFor (getValue argrv) (isLet pd) (ArgNo h') s1) \<and>
           entryArguments s' =
             entryArguments s0 @
             argumentsFor env paramLoc (length (entryArguments s0))
               (flattenedLeaves (eraseDynamicSelfType env c)) \<and>
           VarLocs s' = VarLocs s0 \<and>
           (\<forall>k. isActive s' k \<longrightarrow> k < length (Cleanups s0) \<and> isActive s0 k)))
   \<and> (\<forall>h' s'.
        emitAnonymousParam env (Some t) paramLoc PD h s = Inr (h', s') \<longrightarrow>
        entryArguments s' =
          entryArguments s @
          argumentsFor env paramLoc (length (entryArguments s))
            (erasedLeaves env (anonymousLeaves env t)) \<and>
        VarLocs s' = VarLocs s \<and>
        (\<forall>k. isActive s' k \<longrightarrow> k < length (Cleanups s) \<and> isActive s k))"
proof (intro conjI allI impI)
  assume "isMaterializable env t \<or> \<not> isTupleType t"
  with emitAnonymousParam_cases [of env t paramLoc PD h s]
  show "emitAnonymousParam env (Some t) paramLoc PD h s =
        discardArgument env (Some t) paramLoc PD h s" by simp
next
  assume "\<not> isMaterializable env t \<and> isTupleType t"
  with emitAnonymousParam_cases [of env t paramLoc PD h s]
  show "emitAnonymousParam env (Some t) paramLoc PD h s =
        discardEach env (anonymousLeaves env t) paramLoc h s" by simp
next
  show "list_all (\<lambda>c. isMaterializable env c \<or> \<not> isTupleType c) (anonymousLeaves env t)"
    by (rule anonymousLeaves_stop)
next
  fix c PD' h0 s0 h' s'
  assume d: "discardArgument env (Some c) paramLoc PD' h0 s0 = Inr (h', s')"
  then obtain argrv s1 where
    m: "ArgumentInitHelper_makeArgument env (Some c) paramLoc h0 s0 = Inr (argrv, h', s1)"
    and s': "s' = popScope (length (Cleanups s0))
                    (case PD' of None \<Rightarrow> s1
                     | Some pd \<Rightarrow> emitDebugValueFor (getValue argrv) (isLet pd) (ArgNo h') s1)"
    by (auto simp: discardArgument_def Let_def scopeDepth_def split: sum.splits option.splits)
  from discardArgument_effect [OF d] have e: "discards s0 s'"
    "entryArguments s' = entryArguments s0 @
       argumentsFor env paramLoc (length (entryArguments s0))
         (flattenedLeaves (eraseDynamicSelfType env c))"
    by auto
  from e(1) have "VarLocs s' = VarLocs s0"
    "\<forall>k. isActive s' k \<longrightarrow> k < length (Cleanups s0) \<and> isActive s0 k"
    by (auto simp: discards_def materializes_def)
  with m s' e(2)
  show "\<exists>argrv s1.
           ArgumentInitHelper_makeArgument env (Some c) paramLoc h0 s0 = Inr (argrv, h', s1) \<and>
           s' = popScope (length (Cleanups s0))
                  (case PD' of
                     None \<Rightarrow> s1
                   | Some pd \<Rightarrow> emitDebugValueFor (getValue argrv) (isLet pd) (ArgNo h') s1) \<and>
           entryArguments s' =
             entryArguments s0 @
             argumentsFor env paramLoc (length (entryArguments s0))
               (flattenedLeaves (eraseDynamicSelfType env c)) \<and>
           VarLocs s' = VarLocs s0 \<and>
           (\<forall>k. isActive s' k \<longrightarrow> k < length (Cleanups s0) \<and> isActive s0 k)"
    by blast
next
  fix h' s'
  assume a: "emitAnonymousParam env (Some t) paramLoc PD h s = Inr (h', s')"
  from emitAnonymousParam_effect [OF a] have e: "discards s s'"
    "entryArguments s' = entryArguments s @
       argumentsFor env paramLoc (length (entryArguments s))
         (erasedLeaves env (anonymousLeaves env t))"
    by auto
  show "entryArguments s' = entryArguments s @
       argumentsFor env paramLoc (length (entryArguments s))
         (erasedLeaves env (anonymousLeaves env t))" by (rule e(2))
  show "VarLocs s' = VarLocs s" using e(1) by (simp add: discards_def materializes_def)
  show "\<And>k. isActive s' k \<Longrightarrow> k < length (Cleanups s)"
    using e(1) by (simp add: discards_def)
  show "\<And>k. isActive s' k \<Longrightarrow> isActive s k"
    using e(1) by (simp add: discards_def materializes_def)
qed


lemma closure_prolog_example:
  "emitProlog closureEnv [exampleParams] (NominalType ''Int'') True emptyState
   = Inr (2,
       \<lparr>emitted =
          [CreateFunctionArgument
             (FunctionArgument 0 (SILType (NominalType ''Int'') False)
                (Some (letDecl ''x'' (NominalType ''Int'')))),
           DebugValue
             (FunctionArgument 0 (SILType (NominalType ''Int'') False)
                (Some (letDecl ''x'' (NominalType ''Int'')))) [] True 1,
           DebugValue (SILUndef getExceptionType) ''$error'' False 2],
        Cleanups = [],
        VarLocs =
          [(letDecl ''x'' (NominalType ''Int''),
            VarLoc (FunctionArgument 0 (SILType (NominalType ''Int'') False)
                (Some (letDecl ''x'' (NominalType ''Int'')))) None)]\<rparr>)"
  by code_simp

lemma closure_prolog_with_capture_example:
  "emitPrologClosure closureEnv [captureOf (letDecl ''y'' (NominalType ''A''))] (NominalType ''C'')
     [exampleParams] (NominalType ''Int'') True emptyState
   = Inr
       \<lparr>emitted =
          [CreateFunctionArgument
             (FunctionArgument 0 (SILType (NominalType ''Int'') False)
                (Some (letDecl ''x'' (NominalType ''Int'')))),
           DebugValue
             (FunctionArgument 0 (SILType (NominalType ''Int'') False)
                (Some (letDecl ''x'' (NominalType ''Int'')))) [] True 1,
           DebugValue (SILUndef getExceptionType) ''$error'' False 2,
           CreateFunctionArgument
             (FunctionArgument 1 (SILType (NominalType ''A'') False)
                (Some (letDecl ''y'' (NominalType ''A'')))),
           DebugValue
             (FunctionArgument 1 (SILType (NominalType ''A'') False)
                (Some (letDecl ''y'' (NominalType ''A'')))) [] True 3],
        Cleanups =
          [(DestroyValueCleanup
              (FunctionArgument 1 (SILType (NominalType ''A'') False)
                 (Some (letDecl ''y'' (NominalType ''A'')))), Active)],
        VarLocs =
          [(letDecl ''y'' (NominalType ''A''),
            VarLoc (FunctionArgument 1 (SILType (NominalType ''A'') False)
                (Some (letDecl ''y'' (NominalType ''A'')))) None),
           (letDecl ''x'' (NominalType ''Int''),
            VarLoc (FunctionArgument 0 (SILType (NominalType ''Int'') False)
                (Some (letDecl ''x'' (NominalType ''Int'')))) None)]\<rparr>"
  by code_simp

text \<open>
  C5 as stated fails for a throwing closure with one parameter and one capture: the
  marker of the error slot has ordinal 2 and is emitted before the capture's argument,
  which is numbered 3, and \<open>emitProlog\<close> returns 2, not 3.
\<close>

theorem emitPrologClosure_error_slot_counterexample:
  "emitProlog closureEnv [exampleParams] (NominalType ''Int'') True emptyState
   = Inr (2,
       \<lparr>emitted =
          [CreateFunctionArgument
             (FunctionArgument 0 (SILType (NominalType ''Int'') False)
                (Some (letDecl ''x'' (NominalType ''Int'')))),
           DebugValue
             (FunctionArgument 0 (SILType (NominalType ''Int'') False)
                (Some (letDecl ''x'' (NominalType ''Int'')))) [] True 1,
           DebugValue (SILUndef getExceptionType) ''$error'' False 2],
        Cleanups = [],
        VarLocs =
          [(letDecl ''x'' (NominalType ''Int''),
            VarLoc (FunctionArgument 0 (SILType (NominalType ''Int'') False)
                (Some (letDecl ''x'' (NominalType ''Int'')))) None)]\<rparr>)
   \<and> emitPrologClosure closureEnv [captureOf (letDecl ''y'' (NominalType ''A''))] (NominalType ''C'')
     [exampleParams] (NominalType ''Int'') True emptyState
   = Inr
       \<lparr>emitted =
          [CreateFunctionArgument
             (FunctionArgument 0 (SILType (NominalType ''Int'') False)
                (Some (letDecl ''x'' (NominalType ''Int'')))),
           DebugValue
             (FunctionArgument 0 (SILType (NominalType ''Int'') False)
                (Some (letDecl ''x'' (NominalType ''Int'')))) [] True 1,
           DebugValue (SILUndef getExceptionType) ''$error'' False 2,
           CreateFunctionArgument
             (FunctionArgument 1 (SILType (NominalType ''A'') False)
                (Some (letDecl ''y'' (NominalType ''A'')))),
           DebugValue
             (FunctionArgument 1 (SILType (NominalType ''A'') False)
                (Some (letDecl ''y'' (NominalType ''A'')))) [] True 3],
        Cleanups =
          [(DestroyValueCleanup
              (FunctionArgument 1 (SILType (NominalType ''A'') False)
                 (Some (letDecl ''y'' (NominalType ''A'')))), Active)],
        VarLocs =
          [(letDecl ''y'' (NominalType ''A''),
            VarLoc (FunctionArgument 1 (SILType (NominalType ''A'') False)
                (Some (letDecl ''y'' (NominalType ''A'')))) None),
           (letDecl ''x'' (NominalType ''Int''),
            VarLoc (FunctionArgument 0 (SILType (NominalType ''Int'') False)
                (Some (letDecl ''x'' (NominalType ''Int'')))) None)]\<rparr>"
  by (rule conjI [OF closure_prolog_example closure_prolog_with_capture_example])

theorem emitPrologClosure_throwing_layout_witness:
  "list_all (\<lambda>c. \<not> isDynamicSelfMetadata c) [captureOf (letDecl ''y'' (NominalType ''A''))]
   \<and> (\<exists>s1. emitProlog closureEnv [exampleParams] (NominalType ''Int'')
              True emptyState = Inr (1 + 1, emit (errorSlot (1 + 1)) s1)
          \<and> entryArguments (emit (errorSlot (1 + 1)) s1) = entryArguments s1)"
proof -
  have d: "list_all (\<lambda>c. \<not> isDynamicSelfMetadata c) [captureOf (letDecl ''y'' (NominalType ''A''))]"
    by (simp add: captureOf_def)
  have m: "(1::nat) = length (concat [exampleParams])" by (simp add: exampleParams_def)
  from emitPrologClosure_throwing_layout
         [OF closure_prolog_with_capture_example d m refl refl refl] d
  show ?thesis by blast
qed

lemma indirect_prolog_example:
  "emitProlog indirectEnv [exampleParams]
     (TupleType [NominalType ''Int'', NominalType ''P'']) False emptyState
   = Inr (1,
       \<lparr>emitted =
          [CreateFunctionArgument
             (FunctionArgument 0 (SILType (NominalType ''P'') False)
                (Some (returnValueDecl (NominalType ''P'')))),
           CreateFunctionArgument
             (FunctionArgument 1 (SILType (NominalType ''Int'') False)
                (Some (letDecl ''x'' (NominalType ''Int'')))),
           DebugValue
             (FunctionArgument 1 (SILType (NominalType ''Int'') False)
                (Some (letDecl ''x'' (NominalType ''Int'')))) [] True 1],
        Cleanups = [],
        VarLocs =
          [(letDecl ''x'' (NominalType ''Int''),
            VarLoc (FunctionArgument 1 (SILType (NominalType ''Int'') False)
                (Some (letDecl ''x'' (NominalType ''Int'')))) None)]\<rparr>)"
  by code_simp

theorem emitProlog_indirect_results_first_witness:
  "emitProlog indirectEnv [exampleParams]
     (TupleType [NominalType ''Int'', NominalType ''P'']) False emptyState
   = Inr (1,
       \<lparr>emitted =
          [CreateFunctionArgument
             (FunctionArgument 0 (SILType (NominalType ''P'') False)
                (Some (returnValueDecl (NominalType ''P'')))),
           CreateFunctionArgument
             (FunctionArgument 1 (SILType (NominalType ''Int'') False)
                (Some (letDecl ''x'' (NominalType ''Int'')))),
           DebugValue
             (FunctionArgument 1 (SILType (NominalType ''Int'') False)
                (Some (letDecl ''x'' (NominalType ''Int'')))) [] True 1],
        Cleanups = [],
        VarLocs =
          [(letDecl ''x'' (NominalType ''Int''),
            VarLoc (FunctionArgument 1 (SILType (NominalType ''Int'') False)
                (Some (letDecl ''x'' (NominalType ''Int'')))) None)]\<rparr>)
   \<and> prefix
     (emitted emptyState @
      map CreateFunctionArgument
        (indirectResults indirectEnv (length (entryArguments emptyState))
           (flattenedLeaves
              (getCanonicalType indirectEnv (TupleType [NominalType ''Int'', NominalType ''P''])))))
     [CreateFunctionArgument
        (FunctionArgument 0 (SILType (NominalType ''P'') False)
           (Some (returnValueDecl (NominalType ''P'')))),
      CreateFunctionArgument
        (FunctionArgument 1 (SILType (NominalType ''Int'') False)
           (Some (letDecl ''x'' (NominalType ''Int'')))),
      DebugValue
        (FunctionArgument 1 (SILType (NominalType ''Int'') False)
           (Some (letDecl ''x'' (NominalType ''Int'')))) [] True 1]
   \<and> indirectResults indirectEnv (length (entryArguments emptyState))
        (flattenedLeaves
           (getCanonicalType indirectEnv (TupleType [NominalType ''Int'', NominalType ''P''])))
     = [FunctionArgument 0 (SILType (NominalType ''P'') False)
          (Some (returnValueDecl (NominalType ''P'')))]"
proof -
  have i: "indirectResults indirectEnv (length (entryArguments emptyState))
        (flattenedLeaves
           (getCanonicalType indirectEnv (TupleType [NominalType ''Int'', NominalType ''P''])))
     = [FunctionArgument 0 (SILType (NominalType ''P'') False)
          (Some (returnValueDecl (NominalType ''P'')))]"
    by (simp add: indirectEnv_def sampleEnv_def emptyState_def entryArguments_def Let_def)
  from emitProlog_indirect_results_first
    [of indirectEnv "TupleType [NominalType ''Int'', NominalType ''P'']" emptyState
        "[exampleParams]" False]
    indirect_prolog_example i
  show ?thesis by simp
qed


lemma anonymous_param_example:
  "emitAnonymousParam inoutTupleEnv
     (Some (TupleType [NominalType ''A'', InOutType (NominalType ''B'')]))
     (Some (anonymousDecl (TupleType [NominalType ''A'', InOutType (NominalType ''B'')])))
     (Some (anonymousDecl (TupleType [NominalType ''A'', InOutType (NominalType ''B'')])))
     \<lparr>parameters = loweredParameters inoutTupleEnv, ArgNo = 1\<rparr> emptyState
   = Inr (\<lparr>parameters = [], ArgNo = 1\<rparr>,
       \<lparr>emitted =
          [CreateFunctionArgument
             (FunctionArgument 0 (SILType (NominalType ''A'') False)
                (Some (anonymousDecl (TupleType [NominalType ''A'', InOutType (NominalType ''B'')])))),
           DestroyValue
             (FunctionArgument 0 (SILType (NominalType ''A'') False)
                (Some (anonymousDecl (TupleType [NominalType ''A'', InOutType (NominalType ''B'')])))),
           CreateFunctionArgument
             (FunctionArgument 1 (SILType (InOutType (NominalType ''B'')) False)
                (Some (anonymousDecl (TupleType [NominalType ''A'', InOutType (NominalType ''B'')]))))],
        Cleanups =
          [(DestroyValueCleanup
              (FunctionArgument 0 (SILType (NominalType ''A'') False)
                 (Some (anonymousDecl (TupleType [NominalType ''A'', InOutType (NominalType ''B'')])))),
            Popped)],
        VarLocs = []\<rparr>)"
  by code_simp

theorem emitAnonymousParam_scoped_discard_witness:
  "emitAnonymousParam inoutTupleEnv
     (Some (TupleType [NominalType ''A'', InOutType (NominalType ''B'')]))
     (Some (anonymousDecl (TupleType [NominalType ''A'', InOutType (NominalType ''B'')])))
     (Some (anonymousDecl (TupleType [NominalType ''A'', InOutType (NominalType ''B'')])))
     \<lparr>parameters = loweredParameters inoutTupleEnv, ArgNo = 1\<rparr> emptyState
   = discardEach inoutTupleEnv [NominalType ''A'', InOutType (NominalType ''B'')]
     (Some (anonymousDecl (TupleType [NominalType ''A'', InOutType (NominalType ''B'')])))
     \<lparr>parameters = loweredParameters inoutTupleEnv, ArgNo = 1\<rparr> emptyState
   \<and> discardEach inoutTupleEnv [NominalType ''A'', InOutType (NominalType ''B'')]
     (Some (anonymousDecl (TupleType [NominalType ''A'', InOutType (NominalType ''B'')])))
     \<lparr>parameters = loweredParameters inoutTupleEnv, ArgNo = 1\<rparr> emptyState
     \<noteq> Inl NoParameterInfo"
  using emitAnonymousParam_scoped_discard
    [of inoutTupleEnv "TupleType [NominalType ''A'', InOutType (NominalType ''B'')]"
        "Some (anonymousDecl (TupleType [NominalType ''A'', InOutType (NominalType ''B'')]))"
        "Some (anonymousDecl (TupleType [NominalType ''A'', InOutType (NominalType ''B'')]))"
        "\<lparr>parameters = loweredParameters inoutTupleEnv, ArgNo = 1\<rparr>" emptyState]
    anonymous_param_example
  by (simp add: inoutTupleEnv_def sampleEnv_def)



text \<open>
  C8 as stated fails for an unnamed parameter of the non-materializable tuple type
  \<open>((A, B), inout C)\<close> whose element \<open>(A, B)\<close> is materializable: the leaves \<open>A\<close> and
  \<open>B\<close> are materialized under one scope, bound as one tuple value, and discarded by one
  release of that tuple.
\<close>

theorem emitAnonymousParam_nested_tuple_counterexample:
  "emitAnonymousParam nestedTupleEnv
     (Some (TupleType [TupleType [NominalType ''A'', NominalType ''B''],
                       InOutType (NominalType ''C'')]))
     (Some nestedTupleDecl) (Some nestedTupleDecl)
     \<lparr>parameters = loweredParameters nestedTupleEnv, ArgNo = 1\<rparr> emptyState
   = Inr (\<lparr>parameters = [], ArgNo = 1\<rparr>,
       \<lparr>emitted =
          [CreateFunctionArgument
             (FunctionArgument 0 (SILType (NominalType ''A'') False) (Some nestedTupleDecl)),
           CreateFunctionArgument
             (FunctionArgument 1 (SILType (NominalType ''B'') False) (Some nestedTupleDecl)),
           Emit (TupleInst (SILType (TupleType [NominalType ''A'', NominalType ''B'']) False)
             [FunctionArgument 0 (SILType (NominalType ''A'') False) (Some nestedTupleDecl),
              FunctionArgument 1 (SILType (NominalType ''B'') False) (Some nestedTupleDecl)]),
           DestroyValue
             (TupleInst (SILType (TupleType [NominalType ''A'', NominalType ''B'']) False)
               [FunctionArgument 0 (SILType (NominalType ''A'') False) (Some nestedTupleDecl),
                FunctionArgument 1 (SILType (NominalType ''B'') False) (Some nestedTupleDecl)]),
           CreateFunctionArgument
             (FunctionArgument 2 (SILType (InOutType (NominalType ''C'')) False)
                (Some nestedTupleDecl))],
        Cleanups =
          [(DestroyValueCleanup
              (FunctionArgument 0 (SILType (NominalType ''A'') False) (Some nestedTupleDecl)),
            Forwarded),
           (DestroyValueCleanup
              (FunctionArgument 1 (SILType (NominalType ''B'') False) (Some nestedTupleDecl)),
            Forwarded),
           (DestroyValueCleanup
              (TupleInst (SILType (TupleType [NominalType ''A'', NominalType ''B'']) False)
                [FunctionArgument 0 (SILType (NominalType ''A'') False) (Some nestedTupleDecl),
                 FunctionArgument 1 (SILType (NominalType ''B'') False) (Some nestedTupleDecl)]),
            Popped)],
        VarLocs = []\<rparr>)"
  by code_simp

end
